theory Spec2Isabelle
  imports Complex_Main "HOL-Library.Multiset"
begin

section \<open>Data model of \<^verbatim>\<open>mnist/main.py\<close>\<close>

text \<open>
  The program drives the tensor library: convolutions, the automatic differentiation, the
  Adadelta update and the random generator are library code. The embedding takes these
  operators as the fields of a record \<open>torch\<close> and translates the functions of
  \<^verbatim>\<open>main.py\<close> (\<open>Net.forward\<close>, \<open>train\<close>, \<open>test\<close>, \<open>main\<close>) over it. Python integers
  are \<open>int\<close>. A float is the real number it stands for, and floating-point arithmetic
  is arithmetic followed by rounding: the result of every Python float operation goes
  through \<open>float_round\<close>, and the reductions the library makes inside a tensor are its
  operators \<open>tensor_sum\<close> and \<open>tensor_div\<close>. Nothing is assumed of them, so additions
  need not be associative; an arithmetic without rounding is the special case \<open>exact\<close>.

  Every exception of the source is a value: a function that can raise returns an
  \<open>outcome\<close>, which keeps the state reached when the exception left the function.
\<close>

datatype error = ZeroDivisionError | IndexError | ValueError | RuntimeError

datatype ('a, 's) outcome = Return 'a 's | Raise error 's

text \<open>The two lines the program prints, as the tuples of values handed to \<open>format\<close>.\<close>

datatype report =
    TrainReport (rep_epoch: int) (rep_seen: int) (rep_total: int) (rep_percent: real) (rep_loss: real)
  | TestReport (rep_avg_loss: real) (rep_correct: int) (rep_size: int) (rep_accuracy: real)

datatype reduction = RedMean | RedSum

text \<open>
  The history of the calls the program makes into the library, in program order. It is
  only ever appended to. \<open>Forward tr g\<close> records the mode flag of the module and the
  gradient mode at the time of the call.
\<close>

datatype event =
    ModelTrain | ModelEval | NoGradEnter | NoGradExit
  | ZeroGrad | Forward bool bool | NllLoss reduction | Backward | OptimizerStep
  | SchedulerStep | Print report | Save string

record ('p, 'g, 'o, 'r) world =
  params :: 'p
  grads :: 'g
  opt_state :: 'o
  opt_lr :: real
  rng :: 'r
  training :: bool
  grad_enabled :: bool
  trace :: "event list"
  files :: "(string \<times> 'p) list"

record ('p, 'g, 'o, 'r, 't) torch =
  conv1 :: "'p \<Rightarrow> 't \<Rightarrow> 't"
  conv2 :: "'p \<Rightarrow> 't \<Rightarrow> 't"
  fc1 :: "'p \<Rightarrow> 't \<Rightarrow> 't"
  fc2 :: "'p \<Rightarrow> 't \<Rightarrow> 't"
  relu :: "'t \<Rightarrow> 't"
  max_pool2d :: "nat \<Rightarrow> 't \<Rightarrow> 't"
  flatten :: "'t \<Rightarrow> 't"
  log_softmax :: "'t \<Rightarrow> real list"
  bernoulli_drop :: "real \<Rightarrow> 'r \<Rightarrow> 't \<Rightarrow> 't \<times> 'r"
  zero :: "'g \<Rightarrow> 'g"
  autograd :: "'p \<Rightarrow> 'r \<Rightarrow> ('t \<times> int) list \<Rightarrow> 'g \<Rightarrow> 'g"
  adadelta :: "real \<Rightarrow> 'p \<Rightarrow> 'g \<Rightarrow> 'o \<Rightarrow> 'p \<times> 'o"
  shuffled :: "'r \<Rightarrow> ('t \<times> int) list \<Rightarrow> ('t \<times> int) list \<times> 'r"
  manual_seed :: "int \<Rightarrow> 'r"
  net_init :: "'r \<Rightarrow> 'p \<times> 'r"
  no_grads :: 'g
  adadelta_init :: "'p \<Rightarrow> 'o"
  tensor_sum :: "real list \<Rightarrow> real"
  tensor_div :: "real \<Rightarrow> real \<Rightarrow> real"
  float_round :: "real \<Rightarrow> real"

record args =
  batch_size :: int
  test_batch_size :: int
  epochs :: int
  lr :: real
  gamma :: real
  no_cuda :: bool
  no_mps :: bool
  dry_run :: bool
  seed :: int
  log_interval :: int
  save_model :: bool

definition log :: "event \<Rightarrow> ('p, 'g, 'o, 'r) world \<Rightarrow> ('p, 'g, 'o, 'r) world" where
  "log e s = s\<lparr>trace := trace s @ [e]\<rparr>"

section \<open>The data loader\<close>

text \<open>
  A \<open>DataLoader\<close> over a map-style dataset: iterating it yields the samples in chunks of
  \<open>batch_size\<close>, the last one shorter when the size does not divide (\<open>drop_last\<close> is off),
  in dataset order or, with \<open>shuffle\<close>, in the order the generator draws. A sample is an
  image with its label; a batch is a list of samples, so the image and the label tensor
  of a batch have the same length. The constructor refuses a batch size below one, so
  every loader the program builds has a positive \<open>loader_batch_size\<close>, and
  \<open>len(loader)\<close> is the number of batches it yields.
\<close>

record 't loader =
  dataset :: "('t \<times> int) list"
  loader_batch_size :: nat
  loader_shuffle :: bool

definition DataLoader :: "('t \<times> int) list \<Rightarrow> int \<Rightarrow> bool \<Rightarrow> error + 't loader" where
  "DataLoader ds b sh =
     (if b \<le> 0 then Inl ValueError
      else Inr \<lparr>dataset = ds, loader_batch_size = nat b, loader_shuffle = sh\<rparr>)"

fun chunks :: "nat \<Rightarrow> 'a list \<Rightarrow> 'a list list" where
  "chunks n [] = []"
| "chunks n (x # xs) =
     (if n = 0 then [x # xs] else take n (x # xs) # chunks n (drop n (x # xs)))"

definition loader_len :: "'t loader \<Rightarrow> nat" where
  "loader_len L = (length (dataset L) + loader_batch_size L - 1) div loader_batch_size L"

definition loader_iter ::
  "('p, 'g, 'o, 'r, 't) torch \<Rightarrow> 't loader \<Rightarrow> ('p, 'g, 'o, 'r) world
     \<Rightarrow> ('t \<times> int) list list \<times> ('p, 'g, 'o, 'r) world" where
  "loader_iter T L s =
     (if loader_shuffle L
      then (let (ds, r) = shuffled T (rng s) (dataset L)
            in (chunks (loader_batch_size L) ds, s\<lparr>rng := r\<rparr>))
      else (chunks (loader_batch_size L) (dataset L), s))"

section \<open>The model: \<open>Net.forward\<close>\<close>

text \<open>
  \<open>nn.Dropout\<close> calls \<open>F.dropout(x, p, self.training)\<close>: in training mode every sample is
  masked with draws from the generator, in evaluation mode the input is returned as it is
  and the generator is not touched.
\<close>

fun dropout_train ::
  "('p, 'g, 'o, 'r, 't) torch \<Rightarrow> real \<Rightarrow> 'r \<Rightarrow> 't list \<Rightarrow> 't list \<times> 'r" where
  "dropout_train T p r [] = ([], r)"
| "dropout_train T p r (x # xs) =
     (let (y, r1) = bernoulli_drop T p r x;
          (ys, r2) = dropout_train T p r1 xs
      in (y # ys, r2))"

definition dropout ::
  "('p, 'g, 'o, 'r, 't) torch \<Rightarrow> real \<Rightarrow> bool \<Rightarrow> 'r \<Rightarrow> 't list \<Rightarrow> 't list \<times> 'r" where
  "dropout T p tr r xs = (if tr then dropout_train T p r xs else (xs, r))"

definition forward ::
  "('p, 'g, 'o, 'r, 't) torch \<Rightarrow> ('p, 'g, 'o, 'r) world \<Rightarrow> 't list
     \<Rightarrow> real list list \<times> ('p, 'g, 'o, 'r) world" where
  "forward T s x0 =
     (let x1 = map (conv1 T (params s)) x0;
          x2 = map (relu T) x1;
          x3 = map (conv2 T (params s)) x2;
          x4 = map (relu T) x3;
          x5 = map (max_pool2d T 2) x4;
          (x6, r1) = dropout T (1 / 4) (training s) (rng s) x5;
          x7 = map (flatten T) x6;
          x8 = map (fc1 T (params s)) x7;
          x9 = map (relu T) x8;
          (x10, r2) = dropout T (1 / 2) (training s) r1 x9;
          x11 = map (fc2 T (params s)) x10;
          output = map (log_softmax T) x11
      in (output, log (Forward (training s) (grad_enabled s)) (s\<lparr>rng := r2\<rparr>)))"

text \<open>The forward pass of one sample in evaluation mode: the layers without the masks.\<close>

definition eval_row :: "('p, 'g, 'o, 'r, 't) torch \<Rightarrow> 'p \<Rightarrow> 't \<Rightarrow> real list" where
  "eval_row T p x =
     log_softmax T (fc2 T p (relu T (fc1 T p (flatten T
       (max_pool2d T 2 (relu T (conv2 T p (relu T (conv1 T p x)))))))))"

section \<open>Loss and metric\<close>

text \<open>
  \<open>F.nll_loss(output, target, reduction)\<close>: the loss of a sample is minus the
  log-probability its row gives to its label. A label equal to \<open>ignore_index\<close> (\<open>-100\<close>)
  contributes nothing; any other label outside the row raises. \<open>sum\<close> is the library's
  sum of the vector of losses, \<open>mean\<close> divides that sum, inside the library, by the number
  of labels that are not ignored.
\<close>

definition nll_sample :: "real list \<Rightarrow> int \<Rightarrow> error + real" where
  "nll_sample row t =
     (if t = - 100 then Inr 0
      else if 0 \<le> t \<and> t < int (length row) then Inr (- (row ! nat t))
      else Inl IndexError)"

fun nll_terms :: "real list list \<Rightarrow> int list \<Rightarrow> error + real list" where
  "nll_terms (row # rows) (t # ts) =
     (case nll_sample row t of
        Inl e \<Rightarrow> Inl e
      | Inr v \<Rightarrow> (case nll_terms rows ts of Inl e \<Rightarrow> Inl e | Inr vs \<Rightarrow> Inr (v # vs)))"
| "nll_terms rows ts = Inr []"

definition nll_loss ::
  "('p, 'g, 'o, 'r, 't) torch \<Rightarrow> real list list \<Rightarrow> int list \<Rightarrow> reduction \<Rightarrow> error + real" where
  "nll_loss T output target red =
     (case nll_terms output target of
        Inl e \<Rightarrow> Inl e
      | Inr vs \<Rightarrow>
          (case red of
             RedSum \<Rightarrow> Inr (tensor_sum T vs)
           | RedMean \<Rightarrow>
               Inr (tensor_div T (tensor_sum T vs)
                      (real (length (filter (\<lambda>t. t \<noteq> - 100) target))))))"

text \<open>
  \<open>output.argmax(dim=1)\<close>: for each row the index of its largest entry, the first one
  among equals; a row with no entry raises.
\<close>

fun argmax_from :: "nat \<Rightarrow> real \<Rightarrow> nat \<Rightarrow> real list \<Rightarrow> nat" where
  "argmax_from best v i [] = best"
| "argmax_from best v i (x # xs) =
     (if v < x then argmax_from i x (Suc i) xs else argmax_from best v (Suc i) xs)"

definition argmax_row :: "real list \<Rightarrow> error + nat" where
  "argmax_row row = (case row of [] \<Rightarrow> Inl IndexError | x # xs \<Rightarrow> Inr (argmax_from 0 x 1 xs))"

fun argmax :: "real list list \<Rightarrow> error + nat list" where
  "argmax [] = Inr []"
| "argmax (row # rows) =
     (case argmax_row row of
        Inl e \<Rightarrow> Inl e
      | Inr k \<Rightarrow> (case argmax rows of Inl e \<Rightarrow> Inl e | Inr ks \<Rightarrow> Inr (k # ks)))"

text \<open>\<open>pred.eq(target.view_as(pred)).sum().item()\<close>: the number of positions that agree.\<close>

definition eq_sum :: "nat list \<Rightarrow> int list \<Rightarrow> int" where
  "eq_sum pred target = int (length (filter (\<lambda>(k, t). int k = t) (zip pred target)))"

section \<open>The training loop: \<open>train\<close>\<close>

text \<open>
  The body of the \<open>for\<close> loop of \<open>train\<close> for the batches that remain, \<open>batch_idx\<close> being
  the index \<open>enumerate\<close> gives to the first of them. \<open>loss.backward()\<close> raises when the
  forward pass recorded no graph, which is the case when gradient mode was off.
  \<open>batch_idx % args.log_interval\<close> raises on a zero interval; for the other intervals
  \<open>mod\<close> on \<open>int\<close> is Python's \<open>%\<close>. The percentage \<open>100. * batch_idx / len(train_loader)\<close>
  is two float operations, each rounded.
\<close>

fun train_loop ::
  "('p, 'g, 'o, 'r, 't) torch \<Rightarrow> args \<Rightarrow> 't loader \<Rightarrow> int \<Rightarrow> int \<Rightarrow> ('t \<times> int) list list
     \<Rightarrow> ('p, 'g, 'o, 'r) world \<Rightarrow> (unit, ('p, 'g, 'o, 'r) world) outcome" where
  "train_loop T a L epoch batch_idx [] s = Return () s"
| "train_loop T a L epoch batch_idx (b # bs) s =
     (let data = map fst b;
          target = map snd b;
          s1 = log ZeroGrad (s\<lparr>grads := zero T (grads s)\<rparr>);
          (output, s2) = forward T s1 data;
          s3 = log (NllLoss RedMean) s2
      in case nll_loss T output target RedMean of
           Inl e \<Rightarrow> Raise e s3
         | Inr loss \<Rightarrow>
             if \<not> grad_enabled s3 then Raise RuntimeError (log Backward s3)
             else
               (let s4 = log Backward
                           (s3\<lparr>grads := autograd T (params s1) (rng s1) b (grads s3)\<rparr>);
                    (p, st) = adadelta T (opt_lr s4) (params s4) (grads s4) (opt_state s4);
                    s5 = log OptimizerStep (s4\<lparr>params := p, opt_state := st\<rparr>)
                in if log_interval a = 0 then Raise ZeroDivisionError s5
                   else if batch_idx mod log_interval a = 0
                   then (let s6 = log (Print (TrainReport epoch
                                     (batch_idx * int (length data))
                                     (int (length (dataset L)))
                                     (float_round T (float_round T (100 * real_of_int batch_idx) /
                                        real (loader_len L)))
                                     loss)) s5
                         in if dry_run a then Return () s6
                            else train_loop T a L epoch (batch_idx + 1) bs s6)
                   else train_loop T a L epoch (batch_idx + 1) bs s5))"

definition train ::
  "('p, 'g, 'o, 'r, 't) torch \<Rightarrow> args \<Rightarrow> 't loader \<Rightarrow> int
     \<Rightarrow> ('p, 'g, 'o, 'r) world \<Rightarrow> (unit, ('p, 'g, 'o, 'r) world) outcome" where
  "train T a L epoch s =
     (let s0 = log ModelTrain (s\<lparr>training := True\<rparr>);
          (batches, s1) = loader_iter T L s0
      in train_loop T a L epoch 0 batches s1)"

section \<open>The evaluation loop: \<open>test\<close>\<close>

text \<open>
  The body of the \<open>for\<close> loop of \<open>test\<close>. \<open>test_loss += ....item()\<close> is a float addition:
  the sum the library returns for the batch is added to the running total and the result
  is rounded, so the total depends on how the samples are grouped into batches unless
  the additions are exact. \<open>correct\<close> is an integer.
\<close>

fun test_loop ::
  "('p, 'g, 'o, 'r, 't) torch \<Rightarrow> ('t \<times> int) list list \<Rightarrow> real \<times> int
     \<Rightarrow> ('p, 'g, 'o, 'r) world \<Rightarrow> (real \<times> int, ('p, 'g, 'o, 'r) world) outcome" where
  "test_loop T [] acc s = Return acc s"
| "test_loop T (b # bs) (test_loss, correct) s =
     (let data = map fst b;
          target = map snd b;
          (output, s1) = forward T s data;
          s2 = log (NllLoss RedSum) s1
      in case nll_loss T output target RedSum of
           Inl e \<Rightarrow> Raise e s2
         | Inr l \<Rightarrow>
             (case argmax output of
                Inl e \<Rightarrow> Raise e s2
              | Inr pred \<Rightarrow>
                  test_loop T bs
                    (float_round T (test_loss + l), correct + eq_sum pred target) s2))"

text \<open>
  \<open>with torch.no_grad()\<close> saves the gradient mode on entry, switches it off, and puts the
  saved mode back when the block is left, by its end or by an exception. The division by
  \<open>len(test_loader.dataset)\<close> raises on an empty dataset. The mean loss is one rounded
  division, the percentage \<open>100. * correct / len(...)\<close> a rounded product and a rounded
  division.
\<close>

definition test ::
  "('p, 'g, 'o, 'r, 't) torch \<Rightarrow> 't loader
     \<Rightarrow> ('p, 'g, 'o, 'r) world \<Rightarrow> (unit, ('p, 'g, 'o, 'r) world) outcome" where
  "test T L s =
     (let s0 = log ModelEval (s\<lparr>training := False\<rparr>);
          prev = grad_enabled s0;
          s1 = log NoGradEnter (s0\<lparr>grad_enabled := False\<rparr>);
          (batches, s2) = loader_iter T L s1
      in case test_loop T batches (0, 0) s2 of
           Raise e s3 \<Rightarrow> Raise e (log NoGradExit (s3\<lparr>grad_enabled := prev\<rparr>))
         | Return (test_loss, correct) s3 \<Rightarrow>
             (let s4 = log NoGradExit (s3\<lparr>grad_enabled := prev\<rparr>);
                  n = int (length (dataset L))
              in if n = 0 then Raise ZeroDivisionError s4
                 else Return () (log (Print (TestReport
                        (float_round T (test_loss / real_of_int n)) correct n
                        (float_round T (float_round T (100 * real_of_int correct) /
                           real_of_int n)))) s4)))"

section \<open>The rate scheduler\<close>

text \<open>
  Modelled from the spec: \<open>StepLR\<close> is imported from the library and its code is not
  part of the repository. The model follows section 4.4 of the specification: a state
  machine holding the current step index, the base step-size, the decay factor and the
  decay interval, with one operation \<open>advance\<close> that multiplies the optimizer's step-size
  by the decay factor if the current step index is a multiple of the decay interval, and
  then increments the step index.
\<close>

record sched =
  step_index :: nat
  base_lr :: real
  decay :: real
  interval :: nat

definition StepLR :: "('p, 'g, 'o, 'r) world \<Rightarrow> nat \<Rightarrow> real \<Rightarrow> sched" where
  "StepLR s k g = \<lparr>step_index = 0, base_lr = opt_lr s, decay = g, interval = k\<rparr>"

definition advance ::
  "sched \<Rightarrow> ('p, 'g, 'o, 'r) world \<Rightarrow> sched \<times> ('p, 'g, 'o, 'r) world" where
  "advance sc s =
     (sc\<lparr>step_index := step_index sc + 1\<rparr>,
      log SchedulerStep
        (if interval sc dvd step_index sc then s\<lparr>opt_lr := opt_lr s * decay sc\<rparr> else s))"

fun advances ::
  "nat \<Rightarrow> sched \<Rightarrow> ('p, 'g, 'o, 'r) world \<Rightarrow> sched \<times> ('p, 'g, 'o, 'r) world" where
  "advances 0 sc s = (sc, s)"
| "advances (Suc n) sc s = (let (sc1, s1) = advance sc s in advances n sc1 s1)"

section \<open>The epoch orchestrator: \<open>main\<close>\<close>

text \<open>
  What \<open>main\<close> reads from outside the program: which accelerators the machine has and the
  two MNIST datasets. The device only decides where tensors are stored, so the transfers
  \<open>to(device)\<close> are the identity on values; with CUDA both loaders shuffle.
\<close>

record 't env =
  cuda_available :: bool
  mps_available :: bool
  dataset1 :: "('t \<times> int) list"
  dataset2 :: "('t \<times> int) list"

fun epoch_loop ::
  "('p, 'g, 'o, 'r, 't) torch \<Rightarrow> args \<Rightarrow> 't loader \<Rightarrow> 't loader \<Rightarrow> int list \<Rightarrow> sched
     \<Rightarrow> ('p, 'g, 'o, 'r) world \<Rightarrow> (sched, ('p, 'g, 'o, 'r) world) outcome" where
  "epoch_loop T a train_loader test_loader [] sc s = Return sc s"
| "epoch_loop T a train_loader test_loader (epoch # es) sc s =
     (case train T a train_loader epoch s of
        Raise e s1 \<Rightarrow> Raise e s1
      | Return u s1 \<Rightarrow>
          (case test T test_loader s1 of
             Raise e s2 \<Rightarrow> Raise e s2
           | Return v s2 \<Rightarrow>
               (let (sc1, s3) = advance sc s2
                in epoch_loop T a train_loader test_loader es sc1 s3)))"

definition save :: "string \<Rightarrow> ('p, 'g, 'o, 'r) world \<Rightarrow> ('p, 'g, 'o, 'r) world" where
  "save name s = log (Save name) (s\<lparr>files := files s @ [(name, params s)]\<rparr>)"

definition init_world ::
  "('p, 'g, 'o, 'r, 't) torch \<Rightarrow> args \<Rightarrow> ('p, 'g, 'o, 'r) world" where
  "init_world T a =
     (let (p, r) = net_init T (manual_seed T (seed a))
      in \<lparr>params = p, grads = no_grads T, opt_state = adadelta_init T p, opt_lr = lr a,
          rng = r, training = True, grad_enabled = True, trace = [], files = []\<rparr>)"

definition main ::
  "('p, 'g, 'o, 'r, 't) torch \<Rightarrow> 't env \<Rightarrow> args
     \<Rightarrow> error + (unit, ('p, 'g, 'o, 'r) world) outcome" where
  "main T env a =
     (let use_cuda = \<not> no_cuda a \<and> cuda_available env
      in case DataLoader (dataset1 env) (batch_size a) use_cuda of
           Inl e \<Rightarrow> Inl e
         | Inr train_loader \<Rightarrow>
             (case DataLoader (dataset2 env) (test_batch_size a) use_cuda of
                Inl e \<Rightarrow> Inl e
              | Inr test_loader \<Rightarrow>
                  if lr a < 0 then Inl ValueError
                  else
                    (let s = init_world T a;
                         scheduler = StepLR s 1 (gamma a)
                     in Inr (case epoch_loop T a train_loader test_loader
                                    [1..epochs a] scheduler s of
                               Raise e s1 \<Rightarrow> Raise e s1
                             | Return sc s1 \<Rightarrow>
                                 if save_model a then Return () (save ''mnist_cnn.pt'' s1)
                                 else Return () s1))))"

section \<open>Observations on runs\<close>

text \<open>The state a call ends in, whether it returned or raised.\<close>

fun final :: "('a, 's) outcome \<Rightarrow> 's" where
  "final (Return v s) = s"
| "final (Raise e s) = s"

fun returned :: "('a, 's) outcome \<Rightarrow> bool" where
  "returned (Return v s) = True"
| "returned (Raise e s) = False"

text \<open>The events a call appended to the history it started from.\<close>

definition new_events ::
  "('p, 'g, 'o, 'r) world \<Rightarrow> ('p, 'g, 'o, 'r) world \<Rightarrow> event list" where
  "new_events s s' = drop (length (trace s)) (trace s')"

text \<open>
  The contract of the generator the loaders rely on: a shuffled dataset has the samples of
  the dataset, each as often as the dataset has it.
\<close>

definition permutes :: "('p, 'g, 'o, 'r, 't) torch \<Rightarrow> bool" where
  "permutes T = (\<forall>r ds. mset (fst (shuffled T r ds)) = mset ds)"

text \<open>
  The quantities of a sample the evaluation speaks about, for parameters \<open>p\<close>: whether
  evaluating it raises, its negative log-likelihood loss, and whether the class of the
  largest log-probability is its label.
\<close>

definition sample_ok :: "('p, 'g, 'o, 'r, 't) torch \<Rightarrow> 'p \<Rightarrow> 't \<times> int \<Rightarrow> bool" where
  "sample_ok T p smp =
     (case nll_sample (eval_row T p (fst smp)) (snd smp) of
        Inl e \<Rightarrow> False
      | Inr v \<Rightarrow> (case argmax_row (eval_row T p (fst smp)) of Inl e \<Rightarrow> False | Inr k \<Rightarrow> True))"

definition sample_nll :: "('p, 'g, 'o, 'r, 't) torch \<Rightarrow> 'p \<Rightarrow> 't \<times> int \<Rightarrow> real" where
  "sample_nll T p smp =
     (case nll_sample (eval_row T p (fst smp)) (snd smp) of Inl e \<Rightarrow> 0 | Inr v \<Rightarrow> v)"

definition sample_hit :: "('p, 'g, 'o, 'r, 't) torch \<Rightarrow> 'p \<Rightarrow> 't \<times> int \<Rightarrow> bool" where
  "sample_hit T p smp =
     (case argmax_row (eval_row T p (fst smp)) of Inl e \<Rightarrow> False | Inr k \<Rightarrow> int k = snd smp)"

text \<open>The number of samples of a set the program counts as correct.\<close>

definition hits :: "('p, 'g, 'o, 'r, 't) torch \<Rightarrow> 'p \<Rightarrow> ('t \<times> int) list \<Rightarrow> int" where
  "hits T p ds = int (length (filter (sample_hit T p) ds))"

text \<open>The reports among a list of events, in the order they were printed.\<close>

fun printed :: "event list \<Rightarrow> report list" where
  "printed [] = []"
| "printed (Print r # es) = r # printed es"
| "printed (e # es) = printed es"

fun is_print :: "event \<Rightarrow> bool" where
  "is_print (Print r) = True"
| "is_print e = False"

text \<open>
  The library calls one training batch makes, in the order of the loop body: clear the
  gradients, forward pass in training mode with gradients recorded, batch-averaged loss,
  backward pass, one optimizer update.
\<close>

definition batch_protocol :: "event list" where
  "batch_protocol = [ZeroGrad, Forward True True, NllLoss RedMean, Backward, OptimizerStep]"

text \<open>
  The component an event belongs to: a forward pass is told apart by the mode flag of the
  module, a loss by its reduction, a report by its kind.
\<close>

datatype phase = Training | Testing | Scheduling | Saving

fun phase_of :: "event \<Rightarrow> phase" where
  "phase_of ModelTrain = Training"
| "phase_of ZeroGrad = Training"
| "phase_of (Forward tr g) = (if tr then Training else Testing)"
| "phase_of (NllLoss RedMean) = Training"
| "phase_of (NllLoss RedSum) = Testing"
| "phase_of Backward = Training"
| "phase_of OptimizerStep = Training"
| "phase_of (Print (TrainReport e k n pc l)) = Training"
| "phase_of (Print (TestReport l c n pc)) = Testing"
| "phase_of ModelEval = Testing"
| "phase_of NoGradEnter = Testing"
| "phase_of NoGradExit = Testing"
| "phase_of SchedulerStep = Scheduling"
| "phase_of (Save name) = Saving"

text \<open>Whether an event is compatible with gradient mode being off: no forward pass records a graph.\<close>

fun no_grad_forward :: "event \<Rightarrow> bool" where
  "no_grad_forward (Forward tr g) = (\<not> g)"
| "no_grad_forward e = True"

text \<open>Whether an event is compatible with the module being in training mode.\<close>

fun train_mode_forward :: "event \<Rightarrow> bool" where
  "train_mode_forward (Forward tr g) = tr"
| "train_mode_forward e = True"

text \<open>
  A control run of the training loop that is cut off after the first \<open>n\<close> batches the
  loader yields: \<open>train\<close> on the prefix of the batch sequence.
\<close>

definition train_first ::
  "nat \<Rightarrow> ('p, 'g, 'o, 'r, 't) torch \<Rightarrow> args \<Rightarrow> 't loader \<Rightarrow> int
     \<Rightarrow> ('p, 'g, 'o, 'r) world \<Rightarrow> (unit, ('p, 'g, 'o, 'r) world) outcome" where
  "train_first n T a L epoch s =
     (let s0 = log ModelTrain (s\<lparr>training := True\<rparr>);
          (batches, s1) = loader_iter T L s0
      in train_loop T a L epoch 0 (take n batches) s1)"

text \<open>
  What iterating a loader yields and what it leaves in the generator, as functions of the
  generator state it starts from.
\<close>

definition batches_of ::
  "('p, 'g, 'o, 'r, 't) torch \<Rightarrow> 't loader \<Rightarrow> 'r \<Rightarrow> ('t \<times> int) list list" where
  "batches_of T L r =
     chunks (loader_batch_size L)
       (if loader_shuffle L then fst (shuffled T r (dataset L)) else dataset L)"

definition iter_rng :: "('p, 'g, 'o, 'r, 't) torch \<Rightarrow> 't loader \<Rightarrow> 'r \<Rightarrow> 'r" where
  "iter_rng T L r = (if loader_shuffle L then snd (shuffled T r (dataset L)) else r)"


definition rounds_nats :: "('p, 'g, 'o, 'r, 't) torch \<Rightarrow> bool" where
  "rounds_nats T = (\<forall>k::nat. float_round T (real k) = real k)"

text \<open>
  The running total of the evaluation loop after the batches \<open>bs\<close>, started at \<open>l\<close>: per
  batch one rounded addition of the library's sum of the batch.
\<close>

fun acc_loss ::
  "('p, 'g, 'o, 'r, 't) torch \<Rightarrow> 'p \<Rightarrow> real \<Rightarrow> ('t \<times> int) list list \<Rightarrow> real" where
  "acc_loss T p l [] = l"
| "acc_loss T p l (b # bs) =
     acc_loss T p (float_round T (l + tensor_sum T (map (sample_nll T p) b))) bs"

text \<open>
  The specification's own terms, written without the program's functions. A sample is
  labelled when its label is one of the classes of its row (section 3: label values in
  \<open>[0, K)\<close>). Its loss is the negative log-likelihood of the true class. It is classified
  right when the label is the arg-max of the row: an index whose entry no entry exceeds,
  the first such index.
\<close>

definition labelled :: "('p, 'g, 'o, 'r, 't) torch \<Rightarrow> 'p \<Rightarrow> 't \<times> int \<Rightarrow> bool" where
  "labelled T p smp = (0 \<le> snd smp \<and> snd smp < int (length (eval_row T p (fst smp))))"

definition spec_nll :: "('p, 'g, 'o, 'r, 't) torch \<Rightarrow> 'p \<Rightarrow> 't \<times> int \<Rightarrow> real" where
  "spec_nll T p smp = - (eval_row T p (fst smp) ! nat (snd smp))"

definition first_max :: "real list \<Rightarrow> nat \<Rightarrow> bool" where
  "first_max row k =
     (k < length row \<and> list_all (\<lambda>j. row ! j \<le> row ! k) [0..<length row] \<and>
      list_all (\<lambda>j. row ! j < row ! k) [0..<k])"

definition spec_hit :: "('p, 'g, 'o, 'r, 't) torch \<Rightarrow> 'p \<Rightarrow> 't \<times> int \<Rightarrow> bool" where
  "spec_hit T p smp = (0 \<le> snd smp \<and> first_max (eval_row T p (fst smp)) (nat (snd smp)))"

text \<open>
  The specification's protocol for one batch (section 4.5, steps 2 to 6; section 9: reset,
  then accumulate, then apply), as a function on the state, written with the operators of
  the library only: the gradient buffers are cleared; the forward pass draws its dropout
  masks from the generator; the backward pass accumulates the gradient of the loss of
  the batch, at the parameters and masks of that forward pass, into the cleared buffers;
  one update of the optimizer computes the new parameters and the new optimizer state
  from these gradients. The history is not touched.
\<close>

definition protocol_step ::
  "('p, 'g, 'o, 'r, 't) torch \<Rightarrow> ('p, 'g, 'o, 'r) world \<Rightarrow> ('t \<times> int) list
     \<Rightarrow> ('p, 'g, 'o, 'r) world" where
  "protocol_step T s b =
     (let cleared = zero T (grads s);
          drawn = rng (snd (forward T s (map fst b)));
          g = autograd T (params s) (rng s) b cleared;
          (p, st) = adadelta T (opt_lr s) (params s) g (opt_state s)
      in s\<lparr>params := p, grads := g, opt_state := st, rng := drawn\<rparr>)"

text \<open>
  The state the loop of \<open>train\<close> starts from, apart from the history: training mode, and
  the generator as the iteration of the loader leaves it.
\<close>

definition train_entry ::
  "('p, 'g, 'o, 'r, 't) torch \<Rightarrow> 't loader \<Rightarrow> ('p, 'g, 'o, 'r) world \<Rightarrow> ('p, 'g, 'o, 'r) world" where
  "train_entry T L s = s\<lparr>training := True, rng := iter_rng T L (rng s)\<rparr>"

text \<open>The numeric part of a state: parameters, gradients, optimizer state, step-size, generator.\<close>

definition numbers :: "('p, 'g, 'o, 'r) world \<Rightarrow> 'p \<times> 'g \<times> 'o \<times> real \<times> 'r" where
  "numbers s = (params s, grads s, opt_state s, opt_lr s, rng s)"

text \<open>
  The calls of one batch when the gradient mode is \<open>g\<close>; an interrupted batch has made a
  proper prefix of them. \<open>updates s s'\<close> is the number of optimizer updates between two
  states of a run.
\<close>

definition batch_events :: "bool \<Rightarrow> event list" where
  "batch_events g = [ZeroGrad, Forward True g, NllLoss RedMean, Backward, OptimizerStep]"

definition updates :: "('p, 'g, 'o, 'r) world \<Rightarrow> ('p, 'g, 'o, 'r) world \<Rightarrow> nat" where
  "updates s s' = count_list (new_events s s') OptimizerStep"

section \<open>A small instance\<close>

text \<open>
  An instance of the library small enough to run the program on by hand: a tensor is one
  real number, the parameters are one weight used by the last layer, a row has two
  classes, the generator is a counter whose parity decides the dropout mask, shuffling
  reverses the dataset, and the arithmetic is exact. The theorems below hold for every
  instance; this one serves to run them on concrete inputs. \<open>toy_coarse\<close> is the same
  instance with a float format of coarse precision: every float operation rounds to the
  nearest multiple of a quarter.
\<close>

definition toy :: "(real, real, real, nat, real) torch" where
  "toy = \<lparr>conv1 = (\<lambda>p x. x), conv2 = (\<lambda>p x. x), fc1 = (\<lambda>p x. x), fc2 = (\<lambda>p x. p * x),
          relu = (\<lambda>x. max 0 x), max_pool2d = (\<lambda>k x. x), flatten = (\<lambda>x. x),
          log_softmax = (\<lambda>x. [- x, x - 3]),
          bernoulli_drop = (\<lambda>q r x. (if even r then 0 else x, Suc r)),
          zero = (\<lambda>g. 0),
          autograd = (\<lambda>p r b g. g + real (length b)),
          adadelta = (\<lambda>step p g st. (p - step * g, st + g * g)),
          shuffled = (\<lambda>r ds. (rev ds, Suc r)),
          manual_seed = (\<lambda>k. nat k),
          net_init = (\<lambda>r. (1, Suc r)),
          no_grads = 0,
          adadelta_init = (\<lambda>p. 0),
          tensor_sum = sum_list,
          tensor_div = (\<lambda>x y. x / y),
          float_round = (\<lambda>x. x)\<rparr>"


definition toy_data :: "(real \<times> int) list" where
  "toy_data = [(0, 0), (2, 1), (2, 0)]"

definition toy_loader :: "nat \<Rightarrow> real loader" where
  "toy_loader b = \<lparr>dataset = toy_data, loader_batch_size = b, loader_shuffle = False\<rparr>"


definition toy_args :: args where
  "toy_args = \<lparr>batch_size = 2, test_batch_size = 2, epochs = 1, lr = 1, gamma = 1 / 2,
               no_cuda = False, no_mps = False, dry_run = False, seed = 1,
               log_interval = 1, save_model = True\<rparr>"

definition toy_env :: "real env" where
  "toy_env = \<lparr>cuda_available = False, mps_available = False,
              dataset1 = toy_data, dataset2 = toy_data\<rparr>"

definition toy_bad_loader :: "real loader" where
  "toy_bad_loader = \<lparr>dataset = [(0, 0), (2, 5)], loader_batch_size = 1, loader_shuffle = False\<rparr>"

definition toy_world :: "(real, real, real, nat) world" where
  "toy_world = \<lparr>params = 1, grads = 0, opt_state = 0, opt_lr = 1, rng = 2,
                training = True, grad_enabled = True, trace = [], files = []\<rparr>"

section \<open>Properties\<close>

subsection \<open>Loader, forward pass and evaluation loop\<close>

lemma concat_chunks: "concat (chunks n xs) = xs"
proof (induction n xs rule: chunks.induct)
  case (1 n)
  then show ?case by simp
next
  case (2 n x xs)
  then show ?case by (cases "n = 0") simp_all
qed

lemma forward_eval:
  "\<not> training s \<Longrightarrow>
   forward T s xs =
     (map (eval_row T (params s)) xs, log (Forward False (grad_enabled s)) s)"
  by (simp add: forward_def dropout_def eval_row_def Let_def log_def)

lemma forward_state:
  "\<exists>r. snd (forward T s xs) =
        s\<lparr>rng := r, trace := trace s @ [Forward (training s) (grad_enabled s)]\<rparr>"
  by (auto simp: forward_def Let_def log_def split: prod.splits)

lemma loader_iter_state: "\<exists>r. snd (loader_iter T L s) = s\<lparr>rng := r\<rparr>"
proof (cases "loader_shuffle L")
  case True
  then show ?thesis by (auto simp: loader_iter_def split: prod.splits)
next
  case False
  then have "snd (loader_iter T L s) = s\<lparr>rng := rng s\<rparr>" by (simp add: loader_iter_def)
  then show ?thesis by blast
qed

lemma test_loop_frame:
  "\<exists>r es. final (test_loop T bs acc s) = s\<lparr>rng := r, trace := trace s @ es\<rparr> \<and>
          set es \<subseteq> {Forward (training s) (grad_enabled s), NllLoss RedSum}"
proof (induction bs arbitrary: acc s)
  case Nil
  have "final (test_loop T [] acc s) = s\<lparr>rng := rng s, trace := trace s @ []\<rparr>" by simp
  then show ?case by (metis empty_set empty_subsetI)
next
  case (Cons b bs)
  obtain tl c where acc: "acc = (tl, c)" by (cases acc)
  obtain out s1 where f: "forward T s (map fst b) = (out, s1)" by (cases "forward T s (map fst b)")
  obtain r where s1: "s1 = s\<lparr>rng := r, trace := trace s @ [Forward (training s) (grad_enabled s)]\<rparr>"
    using forward_state [of T s "map fst b"] f by auto
  let ?F = "Forward (training s) (grad_enabled s)"
  let ?s2 = "log (NllLoss RedSum) s1"
  have s2: "?s2 = s\<lparr>rng := r, trace := trace s @ [?F, NllLoss RedSum]\<rparr>"
    by (simp add: s1 log_def)
  have stop: "set [?F, NllLoss RedSum] \<subseteq> {?F, NllLoss RedSum}" by simp
  show ?case
  proof (cases "nll_loss T out (map snd b) RedSum")
    case (Inl e)
    then have "final (test_loop T (b # bs) acc s) = ?s2" by (simp add: acc f)
    then show ?thesis using s2 stop by metis
  next
    case (Inr l)
    show ?thesis
    proof (cases "argmax out")
      case (Inl e)
      then have "final (test_loop T (b # bs) acc s) = ?s2" using Inr by (simp add: acc f)
      then show ?thesis using s2 stop by metis
    next
      case ok: (Inr pred)
      let ?acc = "(float_round T (tl + l), c + eq_sum pred (map snd b))"
      have step: "test_loop T (b # bs) acc s = test_loop T bs ?acc ?s2"
        by (simp add: acc f Inr ok)
      from Cons.IH [of ?acc ?s2] obtain r' es where
        t: "final (test_loop T bs ?acc ?s2) = ?s2\<lparr>rng := r', trace := trace ?s2 @ es\<rparr>" and
        e: "set es \<subseteq> {Forward (training ?s2) (grad_enabled ?s2), NllLoss RedSum}"
        by blast
      have same: "training ?s2 = training s" "grad_enabled ?s2 = grad_enabled s"
        by (simp_all add: s2)
      have "final (test_loop T (b # bs) acc s) =
          s\<lparr>rng := r', trace := trace s @ ([?F, NllLoss RedSum] @ es)\<rparr>"
        unfolding step t by (simp add: s2)
      moreover have "set ([?F, NllLoss RedSum] @ es) \<subseteq> {?F, NllLoss RedSum}"
        using e unfolding same by auto
      ultimately show ?thesis by blast
    qed
  qed
qed

lemma log_sel [simp]:
  "params (log e s) = params s" "grads (log e s) = grads s"
  "opt_state (log e s) = opt_state s" "opt_lr (log e s) = opt_lr s"
  "rng (log e s) = rng s" "training (log e s) = training s"
  "grad_enabled (log e s) = grad_enabled s" "files (log e s) = files s"
  "trace (log e s) = trace s @ [e]"
  by (simp_all add: log_def)

lemma test_shape:
  "\<exists>r es tail.
     final (test T L s) =
       s\<lparr>rng := r, training := False,
         trace := trace s @ [ModelEval, NoGradEnter] @ es @ [NoGradExit] @ tail\<rparr> \<and>
     set es \<subseteq> {Forward False False, NllLoss RedSum} \<and>
     (tail = [] \<or> (\<exists>l c n pc. tail = [Print (TestReport l c n pc)]))"
proof -
  let ?s1 = "log NoGradEnter ((log ModelEval (s\<lparr>training := False\<rparr>))\<lparr>grad_enabled := False\<rparr>)"
  obtain bs s2 where it: "loader_iter T L ?s1 = (bs, s2)" by (cases "loader_iter T L ?s1")
  obtain r0 where s2: "s2 = ?s1\<lparr>rng := r0\<rparr>"
    using loader_iter_state [of T L ?s1] it by auto
  obtain r es where
    fin: "final (test_loop T bs (0, 0) s2) = s2\<lparr>rng := r, trace := trace s2 @ es\<rparr>" and
    es: "set es \<subseteq> {Forward (training s2) (grad_enabled s2), NllLoss RedSum}"
    using test_loop_frame [of T bs "(0, 0)" s2] by blast
  have es': "set es \<subseteq> {Forward False False, NllLoss RedSum}"
    using es by (simp add: s2 log_def)
  let ?s4 = "log NoGradExit ((final (test_loop T bs (0, 0) s2))\<lparr>grad_enabled := grad_enabled s\<rparr>)"
  have s4: "?s4 = s\<lparr>rng := r, training := False,
         trace := trace s @ [ModelEval, NoGradEnter] @ es @ [NoGradExit] @ []\<rparr>"
    unfolding fin by (simp add: s2 log_def)
  show ?thesis
  proof (cases "test_loop T bs (0, 0) s2")
    case (Raise e s3)
    then have "final (test T L s) = ?s4"
      by (simp add: test_def Let_def it)
    then show ?thesis using s4 es' by metis
  next
    case (Return acc s3)
    obtain tl c where acc: "acc = (tl, c)" by (cases acc)
    show ?thesis
    proof (cases "length (dataset L) = 0")
      case True
      then have "final (test T L s) = ?s4"
        using Return by (simp add: test_def Let_def it acc)
      then show ?thesis using s4 es' by metis
    next
      case False
      let ?rep = "TestReport (float_round T (tl / real_of_int (int (length (dataset L)))))
                        c (int (length (dataset L)))
                        (float_round T (float_round T (100 * real_of_int c) /
                           real_of_int (int (length (dataset L)))))"
      have "final (test T L s) = log (Print ?rep) ?s4"
        using Return False by (simp add: test_def Let_def it acc)
      then have "final (test T L s) = s\<lparr>rng := r, training := False,
         trace := trace s @ [ModelEval, NoGradEnter] @ es @ [NoGradExit] @ [Print ?rep]\<rparr>"
        unfolding s4 by (simp add: log_def)
      then show ?thesis using es' by blast
    qed
  qed
qed


lemma nll_terms_ok:
  "list_all (sample_ok T p) b \<Longrightarrow>
   nll_terms (map (eval_row T p \<circ> fst) b) (map snd b) = Inr (map (sample_nll T p) b)"
  by (induction b) (auto simp: sample_ok_def sample_nll_def split: sum.splits)

lemma nll_loss_sum_ok:
  "list_all (sample_ok T p) b \<Longrightarrow>
   nll_loss T (map (eval_row T p \<circ> fst) b) (map snd b) RedSum =
     Inr (tensor_sum T (map (sample_nll T p) b))"
  by (simp add: nll_loss_def nll_terms_ok)

lemma argmax_ok:
  "list_all (sample_ok T p) b \<Longrightarrow>
   \<exists>pred. argmax (map (eval_row T p \<circ> fst) b) = Inr pred \<and>
          eq_sum pred (map snd b) = hits T p b"
proof (induction b)
  case Nil
  then show ?case by (simp add: eq_sum_def hits_def)
next
  case (Cons smp b)
  from Cons.prems have okb: "list_all (sample_ok T p) b" by simp
  from Cons.IH [OF okb] obtain pred where p: "argmax (map (eval_row T p \<circ> fst) b) = Inr pred"
    and e: "eq_sum pred (map snd b) = hits T p b" by blast
  from Cons.prems obtain k where k: "argmax_row (eval_row T p (fst smp)) = Inr k"
    by (auto simp: sample_ok_def split: sum.splits)
  have "argmax (map (eval_row T p \<circ> fst) (smp # b)) = Inr (k # pred)"
    by (simp add: p k)
  moreover have "eq_sum (k # pred) (map snd (smp # b)) = hits T p (smp # b)"
    using e by (simp add: eq_sum_def hits_def sample_hit_def k)
  ultimately show ?case by blast
qed

lemma test_loop_ok:
  "\<not> training s \<Longrightarrow> list_all (sample_ok T (params s)) (concat bs) \<Longrightarrow>
   test_loop T bs (l, c) s =
     Return (acc_loss T (params s) l bs, c + hits T (params s) (concat bs))
       (s\<lparr>trace := trace s @
            concat (replicate (length bs) [Forward False (grad_enabled s), NllLoss RedSum])\<rparr>)"
proof (induction bs arbitrary: l c s)
  case Nil
  then show ?case by (simp add: hits_def)
next
  case (Cons b bs)
  let ?p = "params s"
  let ?s2 = "log (NllLoss RedSum) (log (Forward False (grad_enabled s)) s)"
  let ?l = "float_round T (l + tensor_sum T (map (sample_nll T ?p) b))"
  have okb: "list_all (sample_ok T ?p) b" and okr: "list_all (sample_ok T ?p) (concat bs)"
    using Cons.prems(2) by simp_all
  obtain pred where pr: "argmax (map (eval_row T ?p \<circ> fst) b) = Inr pred"
    and eq: "eq_sum pred (map snd b) = hits T ?p b"
    using argmax_ok [OF okb] by blast
  have step: "test_loop T (b # bs) (l, c) s = test_loop T bs (?l, c + hits T ?p b) ?s2"
    using Cons.prems(1) by (simp add: forward_eval nll_loss_sum_ok [OF okb] pr eq)
  have t2: "\<not> training ?s2" and p2: "params ?s2 = ?p" and g2: "grad_enabled ?s2 = grad_enabled s"
    using Cons.prems(1) by simp_all
  have okr2: "list_all (sample_ok T (params ?s2)) (concat bs)" using okr by (simp add: p2)
  show ?case
    unfolding step Cons.IH [OF t2 okr2] p2 g2
    by (simp add: hits_def log_def)
qed


lemma loader_iter_eq:
  "loader_iter T L s = (batches_of T L (rng s), s\<lparr>rng := iter_rng T L (rng s)\<rparr>)"
  by (simp add: loader_iter_def batches_of_def iter_rng_def split: prod.splits)


lemma length_filter_mset:
  assumes "mset xs = mset ys"
  shows "length (filter P xs) = length (filter P ys)"
proof -
  have "size (filter_mset P (mset xs)) = size (filter_mset P (mset ys))"
    using assms by simp
  then show ?thesis by (simp only: mset_filter [symmetric] size_mset)
qed

lemma list_all_mset:
  assumes "mset xs = mset ys"
  shows "list_all P xs = list_all P ys"
  using mset_eq_setD [OF assms] by (simp add: list_all_iff)

lemma loader_iter_batches:
  assumes "permutes T"
  shows "\<exists>r. snd (loader_iter T L s) = s\<lparr>rng := r\<rparr> \<and>
             (\<not> loader_shuffle L \<longrightarrow> r = rng s)"
    and "mset (concat (fst (loader_iter T L s))) = mset (dataset L)"
proof -
  show "\<exists>r. snd (loader_iter T L s) = s\<lparr>rng := r\<rparr> \<and> (\<not> loader_shuffle L \<longrightarrow> r = rng s)"
  proof (cases "loader_shuffle L")
    case True
    then show ?thesis by (auto simp: loader_iter_def split: prod.splits)
  next
    case False
    then have "snd (loader_iter T L s) = s\<lparr>rng := rng s\<rparr>" by (simp add: loader_iter_def)
    then show ?thesis by blast
  qed
  show "mset (concat (fst (loader_iter T L s))) = mset (dataset L)"
  proof (cases "loader_shuffle L")
    case True
    have "mset (fst (shuffled T (rng s) (dataset L))) = mset (dataset L)"
      using assms by (simp add: permutes_def)
    then show ?thesis using True
      by (auto simp: loader_iter_def concat_chunks split: prod.splits)
  next
    case False
    then show ?thesis by (simp add: loader_iter_def concat_chunks)
  qed
qed

lemma test_ok:
  assumes perm: "permutes T"
    and ne: "dataset L \<noteq> []"
    and ok: "list_all (sample_ok T (params s)) (dataset L)"
  shows "test T L s =
     Return ()
       (s\<lparr>rng := iter_rng T L (rng s), training := False,
          trace := trace s @ [ModelEval, NoGradEnter] @
            concat (replicate (length (batches_of T L (rng s)))
              [Forward False False, NllLoss RedSum]) @
            [NoGradExit,
             Print (TestReport
                      (float_round T (acc_loss T (params s) 0 (batches_of T L (rng s)) /
                         real (length (dataset L))))
                      (hits T (params s) (dataset L))
                      (int (length (dataset L)))
                      (float_round T (float_round T (100 * real_of_int (hits T (params s) (dataset L))) /
                         real (length (dataset L)))))]\<rparr>)"
proof -
  let ?p = "params s"
  let ?bs = "batches_of T L (rng s)"
  let ?s1 = "log NoGradEnter ((log ModelEval (s\<lparr>training := False\<rparr>))\<lparr>grad_enabled := False\<rparr>)"
  let ?s2 = "?s1\<lparr>rng := iter_rng T L (rng s)\<rparr>"
  have it: "loader_iter T L ?s1 = (?bs, ?s2)" by (simp add: loader_iter_eq)
  have ms: "mset (concat ?bs) = mset (dataset L)"
    using loader_iter_batches(2) [OF perm, of L ?s1] it by simp
  have t2: "\<not> training ?s2" and p2: "params ?s2 = ?p" and g2: "grad_enabled ?s2 = False"
    by simp_all
  have ok2: "list_all (sample_ok T (params ?s2)) (concat ?bs)"
    using ok list_all_mset [OF ms] by (simp add: p2)
  have cnt: "hits T ?p (concat ?bs) = hits T ?p (dataset L)"
    using length_filter_mset [OF ms] by (simp add: hits_def)
  have loop: "test_loop T ?bs (0, 0) ?s2 =
      Return (acc_loss T ?p 0 ?bs, hits T ?p (dataset L))
        (?s2\<lparr>trace := trace ?s2 @
            concat (replicate (length ?bs) [Forward False False, NllLoss RedSum])\<rparr>)"
    using test_loop_ok [OF t2 ok2, of 0 0] by (simp only: p2 g2 cnt add_0)
  show ?thesis
    using ne by (simp add: test_def Let_def it loop)
qed

subsection \<open>Training loop\<close>

lemma train_loop_shape:
  assumes tr: "training s"
  shows "\<exists>p g st r es.
     final (train_loop T a L e i bs s) =
       s\<lparr>params := p, grads := g, opt_state := st, rng := r, trace := trace s @ es\<rparr> \<and>
     (list_all (\<lambda>ev. phase_of ev = Training) es \<and>
      count_list es ZeroGrad \<le> length bs \<and> min 1 (length bs) \<le> count_list es ZeroGrad) \<and>
     (returned (train_loop T a L e i bs s) \<longrightarrow>
        (\<exists>n. filter (\<lambda>ev. \<not> is_print ev) es = concat (replicate n batch_protocol) \<and>
             n \<le> length bs \<and> (\<not> dry_run a \<longrightarrow> n = length bs)))"
  using tr
proof (induction bs arbitrary: i s)
  case Nil
  have "final (train_loop T a L e i [] s) =
      s\<lparr>params := params s, grads := grads s, opt_state := opt_state s, rng := rng s,
        trace := trace s @ []\<rparr>" by simp
  moreover have "filter (\<lambda>ev. \<not> is_print ev) [] = concat (replicate 0 batch_protocol)" by simp
  moreover have "list_all (\<lambda>ev. phase_of ev = Training) [] \<and>
      count_list [] ZeroGrad \<le> length ([] :: ('e \<times> int) list list) \<and>
      min 1 (length ([] :: ('e \<times> int) list list)) \<le> count_list [] ZeroGrad" by simp
  moreover have "\<not> dry_run a \<longrightarrow> (0::nat) = length ([] :: ('e \<times> int) list list)" by simp
  moreover have "(0::nat) \<le> length ([] :: ('e \<times> int) list list)" by simp
  ultimately show ?case by blast
next
  case (Cons b bs)
  let ?s1 = "log ZeroGrad (s\<lparr>grads := zero T (grads s)\<rparr>)"
  obtain out s2 where f: "forward T ?s1 (map fst b) = (out, s2)"
    by (cases "forward T ?s1 (map fst b)")
  obtain r where s2: "s2 = ?s1\<lparr>rng := r,
      trace := trace ?s1 @ [Forward (training ?s1) (grad_enabled ?s1)]\<rparr>"
    using forward_state [of T ?s1 "map fst b"] f by auto
  have s2x: "s2 = s\<lparr>grads := zero T (grads s), rng := r,
      trace := trace s @ [ZeroGrad, Forward True (grad_enabled s)]\<rparr>"
    using Cons.prems by (simp add: s2 log_def)
  let ?s3 = "log (NllLoss RedMean) s2"
  have s3: "?s3 = s\<lparr>grads := zero T (grads s), rng := r,
      trace := trace s @ [ZeroGrad, Forward True (grad_enabled s), NllLoss RedMean]\<rparr>"
    using Cons.prems by (simp add: s2 log_def)
  show ?case
  proof (cases "nll_loss T out (map snd b) RedMean")
    case (Inl err)
    then have out: "train_loop T a L e i (b # bs) s = Raise err ?s3"
      by (simp add: f Let_def)
    have "final (train_loop T a L e i (b # bs) s) =
        s\<lparr>params := params s, grads := zero T (grads s), opt_state := opt_state s, rng := r,
          trace := trace s @ [ZeroGrad, Forward True (grad_enabled s), NllLoss RedMean]\<rparr>"
      unfolding out by (simp add: s2x log_def)
    moreover have "list_all (\<lambda>ev. phase_of ev = Training)
        [ZeroGrad, Forward True (grad_enabled s), NllLoss RedMean] \<and>
      count_list [ZeroGrad, Forward True (grad_enabled s), NllLoss RedMean] ZeroGrad
          \<le> length (b # bs) \<and> min 1 (length (b # bs)) \<le> count_list [ZeroGrad, Forward True (grad_enabled s), NllLoss RedMean] ZeroGrad" by simp
    moreover have "\<not> returned (train_loop T a L e i (b # bs) s)" unfolding out by simp
    ultimately show ?thesis by blast
  next
    case (Inr loss)
    show ?thesis
    proof (cases "grad_enabled s")
      case False
      then have out: "train_loop T a L e i (b # bs) s = Raise RuntimeError (log Backward ?s3)"
        using Inr by (simp add: f Let_def s2)
      have "final (train_loop T a L e i (b # bs) s) =
          s\<lparr>params := params s, grads := zero T (grads s), opt_state := opt_state s, rng := r,
            trace := trace s @ [ZeroGrad, Forward True (grad_enabled s), NllLoss RedMean, Backward]\<rparr>"
        unfolding out by (simp add: s2x log_def)
      moreover have "list_all (\<lambda>ev. phase_of ev = Training)
          [ZeroGrad, Forward True (grad_enabled s), NllLoss RedMean, Backward] \<and>
        count_list [ZeroGrad, Forward True (grad_enabled s), NllLoss RedMean, Backward] ZeroGrad
          \<le> length (b # bs) \<and> min 1 (length (b # bs)) \<le> count_list [ZeroGrad, Forward True (grad_enabled s), NllLoss RedMean, Backward] ZeroGrad" by simp
      moreover have "\<not> returned (train_loop T a L e i (b # bs) s)" unfolding out by simp
      ultimately show ?thesis by blast
    next
      case True
      let ?g = "autograd T (params ?s1) (rng ?s1) b (grads ?s3)"
      let ?s4 = "log Backward (?s3\<lparr>grads := ?g\<rparr>)"
      obtain p st where ad: "adadelta T (opt_lr ?s4) (params ?s4) (grads ?s4) (opt_state ?s4) = (p, st)"
        by (cases "adadelta T (opt_lr ?s4) (params ?s4) (grads ?s4) (opt_state ?s4)")
      let ?s5 = "log OptimizerStep (?s4\<lparr>params := p, opt_state := st\<rparr>)"
      have s5: "?s5 = s\<lparr>params := p, grads := ?g, opt_state := st, rng := r,
          trace := trace s @ batch_protocol\<rparr>"
        using True by (simp add: s2x log_def batch_protocol_def)
      have tr5: "training ?s5" using Cons.prems by (simp add: s2x)
      have ph5: "list_all (\<lambda>ev. phase_of ev = Training) batch_protocol"
        by (simp add: batch_protocol_def)
      have c5: "count_list batch_protocol ZeroGrad = 1"
        by (simp add: batch_protocol_def)
      have np5: "filter (\<lambda>ev. \<not> is_print ev) batch_protocol = batch_protocol"
        by (simp add: batch_protocol_def)
      let ?rep = "Print (TrainReport e (i * int (length (map fst b))) (int (length (dataset L)))
                    (float_round T (float_round T (100 * real_of_int i) / real (loader_len L)))
                    loss)"
      let ?s6 = "log ?rep ?s5"
      have s6: "?s6 = s\<lparr>params := p, grads := ?g, opt_state := st, rng := r,
          trace := trace s @ batch_protocol @ [?rep]\<rparr>"
        unfolding s5 by (simp add: log_def)
      have tr6: "training ?s6" using Cons.prems by (simp add: s2x)
      have unfold: "train_loop T a L e i (b # bs) s =
          (if log_interval a = 0 then Raise ZeroDivisionError ?s5
           else if i mod log_interval a = 0
           then (if dry_run a then Return () ?s6 else train_loop T a L e (i + 1) bs ?s6)
           else train_loop T a L e (i + 1) bs ?s5)"
        using Inr True ad by (simp add: f Let_def s2)
      consider (zero) "log_interval a = 0"
        | (dry) "log_interval a \<noteq> 0" "i mod log_interval a = 0" "dry_run a"
        | (rep) "log_interval a \<noteq> 0" "i mod log_interval a = 0" "\<not> dry_run a"
        | (quiet) "log_interval a \<noteq> 0" "i mod log_interval a \<noteq> 0"
        by blast
      then show ?thesis
      proof cases
        case zero
        then have out: "train_loop T a L e i (b # bs) s = Raise ZeroDivisionError ?s5"
          unfolding unfold by simp
        have "final (train_loop T a L e i (b # bs) s) =
            s\<lparr>params := p, grads := ?g, opt_state := st, rng := r,
              trace := trace s @ batch_protocol\<rparr>"
          unfolding out using s5 by simp
        moreover have "\<not> returned (train_loop T a L e i (b # bs) s)" unfolding out by simp
        moreover have "list_all (\<lambda>ev. phase_of ev = Training) batch_protocol \<and>
            count_list batch_protocol ZeroGrad
          \<le> length (b # bs) \<and> min 1 (length (b # bs)) \<le> count_list batch_protocol ZeroGrad"
          using ph5 c5 by simp
        ultimately show ?thesis by blast
      next
        case dry
        then have out: "train_loop T a L e i (b # bs) s = Return () ?s6"
          unfolding unfold by simp
        have "final (train_loop T a L e i (b # bs) s) =
            s\<lparr>params := p, grads := ?g, opt_state := st, rng := r,
              trace := trace s @ (batch_protocol @ [?rep])\<rparr>"
          unfolding out using s6 by simp
        moreover have "list_all (\<lambda>ev. phase_of ev = Training) (batch_protocol @ [?rep]) \<and>
            count_list (batch_protocol @ [?rep]) ZeroGrad
          \<le> length (b # bs) \<and> min 1 (length (b # bs)) \<le> count_list (batch_protocol @ [?rep]) ZeroGrad"
          using ph5 c5 by simp
        moreover have "filter (\<lambda>ev. \<not> is_print ev) (batch_protocol @ [?rep]) =
            concat (replicate 1 batch_protocol)"
          using np5 by simp
        moreover have "(1::nat) \<le> length (b # bs)" by simp
        ultimately show ?thesis using dry(3) by blast
      next
        case rep
        then have out: "train_loop T a L e i (b # bs) s = train_loop T a L e (i + 1) bs ?s6"
          unfolding unfold by simp
        from Cons.IH [OF tr6, of "i + 1"] obtain p' g' st' r' es where
          fin: "final (train_loop T a L e (i + 1) bs ?s6) =
            ?s6\<lparr>params := p', grads := g', opt_state := st', rng := r',
                 trace := trace ?s6 @ es\<rparr>" and
          ph: "list_all (\<lambda>ev. phase_of ev = Training) es" and
          cnt: "count_list es ZeroGrad \<le> length bs" and
          cnt1: "min 1 (length bs) \<le> count_list es ZeroGrad" and
          ret: "returned (train_loop T a L e (i + 1) bs ?s6) \<longrightarrow>
            (\<exists>n. filter (\<lambda>ev. \<not> is_print ev) es = concat (replicate n batch_protocol) \<and>
                 n \<le> length bs \<and> (\<not> dry_run a \<longrightarrow> n = length bs))"
          by blast
        have "final (train_loop T a L e i (b # bs) s) =
            s\<lparr>params := p', grads := g', opt_state := st', rng := r',
              trace := trace s @ (batch_protocol @ [?rep] @ es)\<rparr>"
          unfolding out fin using True by (simp add: s2x log_def batch_protocol_def)
        moreover have "list_all (\<lambda>ev. phase_of ev = Training) (batch_protocol @ [?rep] @ es) \<and>
            count_list (batch_protocol @ [?rep] @ es) ZeroGrad
          \<le> length (b # bs) \<and> min 1 (length (b # bs)) \<le> count_list (batch_protocol @ [?rep] @ es) ZeroGrad"
          using ph5 ph c5 cnt by simp
        moreover have "returned (train_loop T a L e i (b # bs) s) \<longrightarrow>
            (\<exists>n. filter (\<lambda>ev. \<not> is_print ev) (batch_protocol @ [?rep] @ es) =
                   concat (replicate n batch_protocol) \<and>
                 n \<le> length (b # bs) \<and> (\<not> dry_run a \<longrightarrow> n = length (b # bs)))"
        proof
          assume "returned (train_loop T a L e i (b # bs) s)"
          then obtain n where
            n: "filter (\<lambda>ev. \<not> is_print ev) es = concat (replicate n batch_protocol)"
              "n \<le> length bs" "\<not> dry_run a \<longrightarrow> n = length bs"
            using ret unfolding out by blast
          have "filter (\<lambda>ev. \<not> is_print ev) (batch_protocol @ [?rep] @ es) =
              concat (replicate (Suc n) batch_protocol)"
            using np5 n(1) by simp
          moreover have "Suc n \<le> length (b # bs)" using n(2) by simp
          moreover have "\<not> dry_run a \<longrightarrow> Suc n = length (b # bs)" using n(3) by simp
          ultimately show "\<exists>n. filter (\<lambda>ev. \<not> is_print ev) (batch_protocol @ [?rep] @ es) =
                   concat (replicate n batch_protocol) \<and>
                 n \<le> length (b # bs) \<and> (\<not> dry_run a \<longrightarrow> n = length (b # bs))"
            by blast
        qed
        ultimately show ?thesis by blast
      next
        case quiet
        then have out: "train_loop T a L e i (b # bs) s = train_loop T a L e (i + 1) bs ?s5"
          unfolding unfold by simp
        from Cons.IH [OF tr5, of "i + 1"] obtain p' g' st' r' es where
          fin: "final (train_loop T a L e (i + 1) bs ?s5) =
            ?s5\<lparr>params := p', grads := g', opt_state := st', rng := r',
                 trace := trace ?s5 @ es\<rparr>" and
          ph: "list_all (\<lambda>ev. phase_of ev = Training) es" and
          cnt: "count_list es ZeroGrad \<le> length bs" and
          cnt1: "min 1 (length bs) \<le> count_list es ZeroGrad" and
          ret: "returned (train_loop T a L e (i + 1) bs ?s5) \<longrightarrow>
            (\<exists>n. filter (\<lambda>ev. \<not> is_print ev) es = concat (replicate n batch_protocol) \<and>
                 n \<le> length bs \<and> (\<not> dry_run a \<longrightarrow> n = length bs))"
          by blast
        have "final (train_loop T a L e i (b # bs) s) =
            s\<lparr>params := p', grads := g', opt_state := st', rng := r',
              trace := trace s @ (batch_protocol @ es)\<rparr>"
          unfolding out fin using True by (simp add: s2x log_def batch_protocol_def)
        moreover have "list_all (\<lambda>ev. phase_of ev = Training) (batch_protocol @ es) \<and>
            count_list (batch_protocol @ es) ZeroGrad
          \<le> length (b # bs) \<and> min 1 (length (b # bs)) \<le> count_list (batch_protocol @ es) ZeroGrad"
          using ph5 ph c5 cnt by simp
        moreover have "returned (train_loop T a L e i (b # bs) s) \<longrightarrow>
            (\<exists>n. filter (\<lambda>ev. \<not> is_print ev) (batch_protocol @ es) =
                   concat (replicate n batch_protocol) \<and>
                 n \<le> length (b # bs) \<and> (\<not> dry_run a \<longrightarrow> n = length (b # bs)))"
        proof
          assume "returned (train_loop T a L e i (b # bs) s)"
          then obtain n where
            n: "filter (\<lambda>ev. \<not> is_print ev) es = concat (replicate n batch_protocol)"
              "n \<le> length bs" "\<not> dry_run a \<longrightarrow> n = length bs"
            using ret unfolding out by blast
          have "filter (\<lambda>ev. \<not> is_print ev) (batch_protocol @ es) =
              concat (replicate (Suc n) batch_protocol)"
            using np5 n(1) by simp
          moreover have "Suc n \<le> length (b # bs)" using n(2) by simp
          moreover have "\<not> dry_run a \<longrightarrow> Suc n = length (b # bs)" using n(3) by simp
          ultimately show "\<exists>n. filter (\<lambda>ev. \<not> is_print ev) (batch_protocol @ es) =
                   concat (replicate n batch_protocol) \<and>
                 n \<le> length (b # bs) \<and> (\<not> dry_run a \<longrightarrow> n = length (b # bs))"
            by blast
        qed
        ultimately show ?thesis by blast
      qed
    qed
  qed
qed


lemma dry_run_first_batch:
  assumes "dry_run a"
  shows "train_loop T a L e 0 bs s = train_loop T (a\<lparr>dry_run := False\<rparr>) L e 0 (take 1 bs) s"
proof (cases bs)
  case Nil
  then show ?thesis by simp
next
  case (Cons b rest)
  then show ?thesis using assms
    by (simp add: Let_def split: prod.splits sum.splits)
qed

lemma length_chunks:
  "0 < n \<Longrightarrow> length (chunks n xs) = (length xs + n - 1) div n"
proof (induction n xs rule: chunks.induct)
  case (1 n)
  then show ?case by simp
next
  case (2 n x xs)
  then have IH: "length (chunks n (drop n (x # xs))) = (length (drop n (x # xs)) + n - 1) div n"
    by simp
  show ?case
  proof (cases "length (x # xs) \<le> n")
    case True
    then have "(length (x # xs) + n - 1) div n = 1"
      using 2(2) by (simp add: div_eq_dividend_iff Suc_le_eq) 
    then show ?thesis using True 2(2) by simp
  next
    case False
    then have "length (x # xs) + n - 1 = (length (x # xs) - n + n - 1) + n"
      using 2(2) by simp
    then have "(length (x # xs) + n - 1) div n = Suc ((length (x # xs) - n + n - 1) div n)"
      using 2(2) by (metis div_add_self2 Suc_eq_plus1 less_numeral_extra(3))
    then show ?thesis using IH 2(2) by simp
  qed
qed

lemma test_phase:
  "\<exists>r es. final (test T L s) = s\<lparr>rng := r, training := False, trace := trace s @ es\<rparr> \<and>
          es \<noteq> [] \<and> list_all (\<lambda>ev. phase_of ev = Testing) es \<and>
          list_all no_grad_forward es \<and>
          count_list es NoGradEnter = 1 \<and> count_list es NoGradExit = 1"
proof -
  obtain r es tail where
    fin: "final (test T L s) =
       s\<lparr>rng := r, training := False,
         trace := trace s @ [ModelEval, NoGradEnter] @ es @ [NoGradExit] @ tail\<rparr>" and
    es: "set es \<subseteq> {Forward False False, NllLoss RedSum}" and
    tail: "tail = [] \<or> (\<exists>l c n pc. tail = [Print (TestReport l c n pc)])"
    using test_shape [of T L s] by blast
  have a: "list_all (\<lambda>ev. phase_of ev = Testing) es" "list_all no_grad_forward es"
    "count_list es NoGradEnter = 0" "count_list es NoGradExit = 0"
    using es by (auto simp: list_all_iff count_list_0_iff)
  have b: "list_all (\<lambda>ev. phase_of ev = Testing) tail" "list_all no_grad_forward tail"
    "count_list tail NoGradEnter = 0" "count_list tail NoGradExit = 0"
    using tail by auto
  let ?es = "[ModelEval, NoGradEnter] @ es @ [NoGradExit] @ tail"
  have "list_all (\<lambda>ev. phase_of ev = Testing) ?es" using a(1) b(1) by simp
  moreover have "list_all no_grad_forward ?es" using a(2) b(2) by simp
  moreover have "count_list ?es NoGradEnter = 1" using a(3) b(3) by simp
  moreover have "count_list ?es NoGradExit = 1" using a(4) b(4) by simp
  moreover have "?es \<noteq> []" by simp
  ultimately show ?thesis using fin by blast
qed

lemma train_shape:
  "\<exists>p g st r es.
     final (train T a L e s) =
       s\<lparr>params := p, grads := g, opt_state := st, rng := r, training := True,
         trace := trace s @ ModelTrain # es\<rparr> \<and>
     list_all (\<lambda>ev. phase_of ev = Training) es"
proof -
  let ?s0 = "log ModelTrain (s\<lparr>training := True\<rparr>)"
  obtain bs s1 where it: "loader_iter T L ?s0 = (bs, s1)" by (cases "loader_iter T L ?s0")
  obtain r0 where s1: "s1 = ?s0\<lparr>rng := r0\<rparr>"
    using loader_iter_state [of T L ?s0] it by auto
  have tr: "training s1" by (simp add: s1)
  obtain p g st r es where
    fin: "final (train_loop T a L e 0 bs s1) =
       s1\<lparr>params := p, grads := g, opt_state := st, rng := r, trace := trace s1 @ es\<rparr>" and
    ph: "list_all (\<lambda>ev. phase_of ev = Training) es"
    using train_loop_shape [OF tr, of T a L e 0 bs] by blast
  have "final (train T a L e s) =
       s\<lparr>params := p, grads := g, opt_state := st, rng := r, training := True,
         trace := trace s @ ModelTrain # es\<rparr>"
    by (simp add: train_def Let_def it fin) (simp add: s1 log_def)
  then show ?thesis using ph by blast
qed

subsection \<open>Evaluation loop: mean loss, frame and accuracy\<close>

lemma printed_append: "printed (xs @ ys) = printed xs @ printed ys"
  by (induction xs rule: printed.induct) simp_all

lemma printed_passes:
  "printed (concat (replicate n [Forward False False, NllLoss RedSum])) = []"
  by (induction n) simp_all

lemma new_events_append [simp]:
  "trace s' = trace s @ es \<Longrightarrow> new_events s s' = es"
  by (simp add: new_events_def)

lemma argmax_from_first_max:
  assumes "best < length pre" "v = pre ! best"
    and "\<forall>j<length pre. pre ! j \<le> v" "\<forall>j<best. pre ! j < v"
  shows "first_max (pre @ xs) (argmax_from best v (length pre) xs)"
  using assms
proof (induction xs arbitrary: pre best v)
  case Nil
  then show ?case by (simp add: first_max_def list_all_iff)
next
  case (Cons x xs)
  show ?case
  proof (cases "v < x")
    case True
    have "first_max ((pre @ [x]) @ xs) (argmax_from (length pre) x (length (pre @ [x])) xs)"
    proof (rule Cons.IH)
      show "length pre < length (pre @ [x])" by simp
      show "x = (pre @ [x]) ! length pre" by simp
      show "\<forall>j<length (pre @ [x]). (pre @ [x]) ! j \<le> x"
        using Cons.prems(3) True by (fastforce simp: nth_append less_Suc_eq)
      show "\<forall>j<length pre. (pre @ [x]) ! j < x"
        using Cons.prems(3) True by (fastforce simp: nth_append)
    qed
    then show ?thesis using True by simp
  next
    case False
    have "first_max ((pre @ [x]) @ xs) (argmax_from best v (length (pre @ [x])) xs)"
    proof (rule Cons.IH)
      show "best < length (pre @ [x])" using Cons.prems(1) by simp
      show "v = (pre @ [x]) ! best" using Cons.prems(1,2) by (simp add: nth_append)
      show "\<forall>j<length (pre @ [x]). (pre @ [x]) ! j \<le> v"
        using Cons.prems(3) False by (auto simp: nth_append less_Suc_eq)
      show "\<forall>j<best. (pre @ [x]) ! j < v"
        using Cons.prems(1,4) by (auto simp: nth_append)
    qed
    then show ?thesis using False by simp
  qed
qed

text \<open>
  The index \<open>argmax\<close> computes for a row is the arg-max of the row: no entry exceeds the
  entry there, and it is the first such index.
\<close>

lemma argmax_row_first_max:
  assumes "argmax_row row = Inr k"
  shows "first_max row k"
proof (cases row)
  case Nil
  then show ?thesis using assms by (simp add: argmax_row_def)
next
  case (Cons x xs)
  then have k: "k = argmax_from 0 x 1 xs" using assms by (simp add: argmax_row_def)
  have "first_max ([x] @ xs) (argmax_from 0 x (length [x]) xs)"
    by (rule argmax_from_first_max) simp_all
  then show ?thesis using Cons k by simp
qed

lemma argmax_row_maximal:
  "argmax_row row = Inr k \<Longrightarrow> k < length row \<and> (\<forall>j<length row. row ! j \<le> row ! k)"
  using argmax_row_first_max [of row k] by (simp add: first_max_def list_all_iff)

lemma first_max_unique:
  assumes "first_max row k" "first_max row k'"
  shows "k = k'"
proof (rule ccontr)
  assume "k \<noteq> k'"
  then consider "k < k'" | "k' < k" by linarith
  then show False
  proof cases
    case 1
    then have "row ! k < row ! k'" "row ! k' \<le> row ! k"
      using assms by (simp_all add: first_max_def list_all_iff)
    then show False by simp
  next
    case 2
    then have "row ! k' < row ! k" "row ! k \<le> row ! k'"
      using assms by (simp_all add: first_max_def list_all_iff)
    then show False by simp
  qed
qed

lemma labelled_sample:
  assumes "labelled T p smp"
  shows "sample_ok T p smp" and "sample_nll T p smp = spec_nll T p smp"
    and "sample_hit T p smp = spec_hit T p smp"
proof -
  let ?row = "eval_row T p (fst smp)"
  have t: "0 \<le> snd smp" "snd smp < int (length ?row)" "snd smp \<noteq> - 100"
    using assms by (auto simp: labelled_def)
  then have ne: "?row \<noteq> []" by auto
  then obtain k where k: "argmax_row ?row = Inr k"
    by (cases ?row) (simp_all add: argmax_row_def)
  show "sample_ok T p smp" using t k by (simp add: sample_ok_def nll_sample_def)
  show "sample_nll T p smp = spec_nll T p smp"
    using t by (simp add: sample_nll_def nll_sample_def spec_nll_def)
  have fm: "first_max ?row k" by (rule argmax_row_first_max [OF k])
  show "sample_hit T p smp = spec_hit T p smp"
  proof
    assume "sample_hit T p smp"
    then have "int k = snd smp" using k by (simp add: sample_hit_def)
    then have "nat (snd smp) = k" by simp
    then show "spec_hit T p smp" using fm t(1) by (simp add: spec_hit_def)
  next
    assume "spec_hit T p smp"
    then have "first_max ?row (nat (snd smp))" by (simp add: spec_hit_def)
    then have "nat (snd smp) = k" using fm first_max_unique by blast
    then have "int k = snd smp" using t(1) by simp
    then show "sample_hit T p smp" using k by (simp add: sample_hit_def)
  qed
qed

lemma labelled_all:
  assumes "list_all (labelled T p) ds"
  shows "list_all (sample_ok T p) ds"
    and "map (sample_nll T p) ds = map (spec_nll T p) ds"
    and "filter (sample_hit T p) ds = filter (spec_hit T p) ds"
  using assms labelled_sample [of T p]
  by (auto simp: list_all_iff intro: filter_cong)

lemma test_printed:
  assumes perm: "permutes T"
    and ne: "dataset L \<noteq> []"
    and lab: "list_all (labelled T (params s)) (dataset L)"
  shows "returned (test T L s)"
    and "printed (new_events s (final (test T L s))) =
      [TestReport
         (float_round T (acc_loss T (params s) 0 (batches_of T L (rng s)) /
            real (length (dataset L))))
         (int (length (filter (spec_hit T (params s)) (dataset L))))
         (int (length (dataset L)))
         (float_round T
            (float_round T (100 * real (length (filter (spec_hit T (params s)) (dataset L)))) /
             real (length (dataset L))))]"
proof -
  note t = test_ok [OF perm ne labelled_all(1) [OF lab]]
  have h: "hits T (params s) (dataset L) =
      int (length (filter (spec_hit T (params s)) (dataset L)))"
    by (simp add: hits_def labelled_all(3) [OF lab])
  show "returned (test T L s)" unfolding t by simp
  show "printed (new_events s (final (test T L s))) =
      [TestReport
         (float_round T (acc_loss T (params s) 0 (batches_of T L (rng s)) /
            real (length (dataset L))))
         (int (length (filter (spec_hit T (params s)) (dataset L))))
         (int (length (dataset L)))
         (float_round T
            (float_round T (100 * real (length (filter (spec_hit T (params s)) (dataset L)))) /
             real (length (dataset L))))]"
    unfolding t by (simp add: printed_append printed_passes h)
qed





text \<open>
  C6. The evaluation loop changes no parameter, no gradient buffer and no optimizer
  state, whether it returns or raises; it enters the no-gradient mode once and leaves it
  once, every forward pass in between runs with gradient mode off, and the gradient mode
  it ends in is the one it started from.
\<close>

theorem test_frame_no_grad:
  "params (final (test T L s)) = params s \<and>
   grads (final (test T L s)) = grads s \<and>
   opt_state (final (test T L s)) = opt_state s \<and>
   opt_lr (final (test T L s)) = opt_lr s \<and>
   grad_enabled (final (test T L s)) = grad_enabled s \<and>
   take (length (trace s)) (trace (final (test T L s))) = trace s \<and>
   list_all no_grad_forward (new_events s (final (test T L s))) \<and>
   count_list (new_events s (final (test T L s))) NoGradEnter = 1 \<and>
   count_list (new_events s (final (test T L s))) NoGradExit = 1"
proof -
  obtain r es where
    fin: "final (test T L s) = s\<lparr>rng := r, training := False, trace := trace s @ es\<rparr>" and
    es: "list_all no_grad_forward es" "count_list es NoGradEnter = 1"
      "count_list es NoGradExit = 1"
    using test_phase [of T L s] by blast
  show ?thesis unfolding fin using es by (simp add: new_events_def)
qed

theorem test_frame_no_grad_witness:
  "\<not> returned (test toy toy_bad_loader toy_world) \<and>
   params (final (test toy toy_bad_loader toy_world)) = 1 \<and>
   grad_enabled (final (test toy toy_bad_loader toy_world)) \<and>
   count_list (new_events toy_world (final (test toy toy_bad_loader toy_world))) NoGradExit = 1"
proof -
  have "\<not> returned (test toy toy_bad_loader toy_world)"
    by (simp add: test_def toy_bad_loader_def toy_world_def toy_def loader_iter_def
        log_def forward_def dropout_def Let_def nll_loss_def nll_sample_def argmax_row_def
        eq_sum_def)
  then show ?thesis
    using test_frame_no_grad [of toy toy_bad_loader toy_world] by (simp add: toy_world_def)
qed

text \<open>
  C8. The one report of an evaluation pass carries the size of the evaluation set, the
  number of its samples whose label is the arg-max of their row of log-probabilities,
  and as accuracy the float computed from that number: 100 times the count, divided by
  the size. When rounding leaves natural numbers alone this is 100 when every sample is
  classified right and 0 when none is.
\<close>

theorem test_accuracy_report:
  assumes "permutes T"
    and "dataset L \<noteq> []"
    and "list_all (labelled T (params s)) (dataset L)"
  shows "map rep_size (printed (new_events s (final (test T L s)))) = [int (length (dataset L))] \<and>
     map rep_correct (printed (new_events s (final (test T L s)))) =
       [int (length (filter (spec_hit T (params s)) (dataset L)))] \<and>
     map rep_accuracy (printed (new_events s (final (test T L s)))) =
       [float_round T
          (float_round T (100 * real (length (filter (spec_hit T (params s)) (dataset L)))) /
           real (length (dataset L)))] \<and>
     (rounds_nats T \<longrightarrow>
        map rep_accuracy (printed (new_events s (final (test T L s)))) =
          [if list_all (spec_hit T (params s)) (dataset L) then 100
           else if list_ex (spec_hit T (params s)) (dataset L)
           then float_round T
                  (100 * real (length (filter (spec_hit T (params s)) (dataset L))) /
                   real (length (dataset L)))
           else 0])"
proof -
  let ?h = "spec_hit T (params s)"
  let ?ds = "dataset L"
  have all: "list_all ?h ?ds \<Longrightarrow> filter ?h ?ds = ?ds"
    by (simp add: list_all_iff)
  have none: "\<not> list_ex ?h ?ds \<Longrightarrow> filter ?h ?ds = []"
    by (simp add: list_ex_iff filter_empty_conv)
  have n: "real (length ?ds) \<noteq> 0" using assms(2) by simp
  have r: "rounds_nats T \<Longrightarrow>
      float_round T (100 * real (length (filter ?h ?ds))) = 100 * real (length (filter ?h ?ds)) \<and>
      float_round T 100 = 100 \<and> float_round T 0 = 0"
  proof -
    assume a: "rounds_nats T"
    have "float_round T (real (100 * length (filter ?h ?ds))) = real (100 * length (filter ?h ?ds))"
      using a unfolding rounds_nats_def by blast
    moreover have "float_round T (real 100) = real 100" using a unfolding rounds_nats_def by blast
    moreover have "float_round T (real 0) = real 0" using a unfolding rounds_nats_def by blast
    ultimately show ?thesis by simp
  qed
  show ?thesis
    using test_printed(2) [OF assms] all none n r by auto
qed

theorem test_accuracy_report_witness:
  "map rep_size (printed (new_events toy_world (final (test toy (toy_loader 2) toy_world)))) = [3] \<and>
   map rep_correct (printed (new_events toy_world (final (test toy (toy_loader 2) toy_world)))) = [2] \<and>
   map rep_accuracy (printed (new_events toy_world (final (test toy (toy_loader 2) toy_world)))) =
     [200 / 3]"
proof -
  have perm: "permutes toy" by (simp add: permutes_def toy_def)
  have ne: "dataset (toy_loader 2) \<noteq> []" by (simp add: toy_loader_def toy_data_def)
  have lab: "list_all (labelled toy (params toy_world)) (dataset (toy_loader 2))"
    by (simp add: labelled_def eval_row_def toy_def toy_loader_def toy_data_def toy_world_def)
  have h: "filter (spec_hit toy (params toy_world)) (dataset (toy_loader 2)) = [(0, 0), (2, 1)]"
    by (simp add: spec_hit_def first_max_def eval_row_def toy_def
        toy_loader_def toy_data_def toy_world_def upt_rec)
  have n: "length (dataset (toy_loader 2)) = 3" by (simp add: toy_loader_def toy_data_def)
  have f: "\<And>x. float_round toy x = x" by (simp add: toy_def)
  show ?thesis
    using test_accuracy_report [OF perm ne lab] by (simp add: h n f)
qed

subsection \<open>Scheduler\<close>

lemma advances_interval_1:
  "interval sc = 1 \<Longrightarrow>
   fst (advances n sc s) = sc\<lparr>step_index := step_index sc + n\<rparr> \<and>
   opt_lr (snd (advances n sc s)) = opt_lr s * decay sc ^ n"
proof (induction n arbitrary: sc s)
  case 0
  then show ?case by simp
next
  case (Suc n)
  have i: "interval (sc\<lparr>step_index := step_index sc + 1\<rparr>) = 1"
    using Suc.prems by simp
  show ?case
    using Suc.IH [OF i] Suc.prems
    by (simp add: advance_def log_def)
qed

text \<open>
  C3. With decay interval 1, after \<open>n\<close> advances of the scheduler the step-size of the
  optimizer is the starting step-size times the \<open>n\<close>-th power of the decay factor.
\<close>

theorem scheduler_step_size_after_n:
  "opt_lr (snd (advances n (StepLR s 1 g) s)) = opt_lr s * g ^ n"
  using advances_interval_1 [of "StepLR s 1 g" n s] by (simp add: StepLR_def)

theorem scheduler_step_size_after_n_witness:
  "opt_lr (snd (advances 3 (StepLR toy_world 1 (1 / 2)) toy_world)) = 1 / 8"
  using scheduler_step_size_after_n [of 3 toy_world "1 / 2"]
  by (simp add: toy_world_def power3_eq_cube)

subsection \<open>Training loop: batch protocol, dry run and reports\<close>

lemma count_list_filter_keep: "P x \<Longrightarrow> count_list (filter P xs) x = count_list xs x"
  by (induction xs) auto

lemma count_protocol:
  "count_list (concat (replicate n batch_protocol)) ZeroGrad = n"
  "count_list (concat (replicate n batch_protocol)) OptimizerStep = n"
  by (induction n) (simp_all add: batch_protocol_def)

lemma loader_iter_length:
  assumes "permutes T" "0 < loader_batch_size L"
  shows "length (fst (loader_iter T L s)) = loader_len L"
proof -
  have "length (fst (shuffled T (rng s) (dataset L))) = length (dataset L)"
    using assms(1) by (metis permutes_def size_mset)
  then show ?thesis
    using assms(2)
    by (auto simp: loader_iter_def loader_len_def length_chunks split: prod.splits)
qed

lemma loader_iter_nonempty:
  assumes "permutes T" "dataset L \<noteq> []"
  shows "fst (loader_iter T L s) \<noteq> []"
proof
  assume "fst (loader_iter T L s) = []"
  then have "mset (concat (fst (loader_iter T L s))) = {#}" by simp
  then show False using loader_iter_batches(2) [OF assms(1), of L s] assms(2) by simp
qed

text \<open>The training loop seen from \<open>train\<close>: the batches of the loader and what the loop adds.\<close>

lemma train_unfold:
  "\<exists>bs s1 r0. loader_iter T L (log ModelTrain (s\<lparr>training := True\<rparr>)) = (bs, s1) \<and>
     s1 = s\<lparr>rng := r0, training := True, trace := trace s @ [ModelTrain]\<rparr> \<and>
     train T a L e s = train_loop T a L e 0 bs s1 \<and>
     train_first n T a2 L e s = train_loop T a2 L e 0 (take n bs) s1"
proof -
  let ?s0 = "log ModelTrain (s\<lparr>training := True\<rparr>)"
  obtain bs s1 where it: "loader_iter T L ?s0 = (bs, s1)" by (cases "loader_iter T L ?s0")
  obtain r0 where "s1 = ?s0\<lparr>rng := r0\<rparr>"
    using loader_iter_state [of T L ?s0] it by auto
  then have "s1 = s\<lparr>rng := r0, training := True, trace := trace s @ [ModelTrain]\<rparr>"
    by (simp add: log_def)
  moreover have "train T a L e s = train_loop T a L e 0 bs s1"
    by (simp add: train_def Let_def it)
  moreover have "train_first n T a2 L e s = train_loop T a2 L e 0 (take n bs) s1"
    by (simp add: train_first_def Let_def it)
  ultimately show ?thesis using it by blast
qed

lemma train_loop_counts:
  assumes "training s"
  shows "\<exists>es. trace (final (train_loop T a L e i bs s)) = trace s @ es \<and>
     count_list es ZeroGrad \<le> length bs \<and> min 1 (length bs) \<le> count_list es ZeroGrad \<and>
     (returned (train_loop T a L e i bs s) \<longrightarrow>
        filter (\<lambda>ev. \<not> is_print ev) es =
          concat (replicate (count_list es ZeroGrad) batch_protocol) \<and>
        (\<not> dry_run a \<longrightarrow> count_list es ZeroGrad = length bs))"
proof -
  obtain p g st r es where
    fin: "final (train_loop T a L e i bs s) =
       s\<lparr>params := p, grads := g, opt_state := st, rng := r, trace := trace s @ es\<rparr>" and
    c: "count_list es ZeroGrad \<le> length bs" "min 1 (length bs) \<le> count_list es ZeroGrad" and
    ret: "returned (train_loop T a L e i bs s) \<longrightarrow>
        (\<exists>n. filter (\<lambda>ev. \<not> is_print ev) es = concat (replicate n batch_protocol) \<and>
             n \<le> length bs \<and> (\<not> dry_run a \<longrightarrow> n = length bs))"
    using train_loop_shape [OF assms, of T a L e i bs] by blast
  have "returned (train_loop T a L e i bs s) \<longrightarrow>
        filter (\<lambda>ev. \<not> is_print ev) es =
          concat (replicate (count_list es ZeroGrad) batch_protocol) \<and>
        (\<not> dry_run a \<longrightarrow> count_list es ZeroGrad = length bs)"
  proof
    assume "returned (train_loop T a L e i bs s)"
    then obtain n where
      n: "filter (\<lambda>ev. \<not> is_print ev) es = concat (replicate n batch_protocol)"
        "\<not> dry_run a \<longrightarrow> n = length bs"
      using ret by blast
    have "count_list (filter (\<lambda>ev. \<not> is_print ev) es) ZeroGrad = count_list es ZeroGrad"
      by (rule count_list_filter_keep) simp
    then have "count_list es ZeroGrad = n" by (simp add: n(1) count_protocol)
    then show "filter (\<lambda>ev. \<not> is_print ev) es =
          concat (replicate (count_list es ZeroGrad) batch_protocol) \<and>
        (\<not> dry_run a \<longrightarrow> count_list es ZeroGrad = length bs)"
      using n by simp
  qed
  moreover have "trace (final (train_loop T a L e i bs s)) = trace s @ es"
    unfolding fin by simp
  ultimately show ?thesis using c by blast
qed

lemma dry_run_count:
  assumes "training s" "dry_run a"
  shows "\<exists>es. trace (final (train_loop T a L e 0 bs s)) = trace s @ es \<and>
     count_list es ZeroGrad = min 1 (length bs)"
proof -
  let ?a = "a\<lparr>dry_run := False\<rparr>"
  have eq: "train_loop T a L e 0 bs s = train_loop T ?a L e 0 (take 1 bs) s"
    by (rule dry_run_first_batch [OF assms(2)])
  obtain es where
    "trace (final (train_loop T ?a L e 0 (take 1 bs) s)) = trace s @ es"
    "count_list es ZeroGrad \<le> length (take 1 bs)"
    "min 1 (length (take 1 bs)) \<le> count_list es ZeroGrad"
    using train_loop_counts [OF assms(1), of T ?a L e 0 "take 1 bs"] by blast
  then have "trace (final (train_loop T a L e 0 bs s)) = trace s @ es \<and>
     count_list es ZeroGrad = min 1 (length bs)"
    unfolding eq by auto
  then show ?thesis by blast
qed

lemma forward_dest:
  "forward T s x = (out, s') \<Longrightarrow>
   \<exists>r. s' = s\<lparr>rng := r, trace := trace s @ [Forward (training s) (grad_enabled s)]\<rparr>"
  using forward_state [of T s x] by auto

lemma dry_run_return:
  assumes "dry_run a" "training s" "train_loop T a L e 0 (b # bs) s = Return u s'"
  shows "\<exists>rep. trace s' = trace s @ batch_protocol @ [Print rep]"
proof -
  let ?s1 = "log ZeroGrad (s\<lparr>grads := zero T (grads s)\<rparr>)"
  obtain out s2 where f: "forward T ?s1 (map fst b) = (out, s2)"
    by (cases "forward T ?s1 (map fst b)")
  obtain r where s2: "s2 = s\<lparr>grads := zero T (grads s), rng := r,
      trace := trace s @ [ZeroGrad, Forward True (grad_enabled s)]\<rparr>"
    using forward_dest [OF f] assms(2) by (auto simp: log_def)
  have "\<exists>rep g p st. grad_enabled s2 \<and> s' =
      log (Print rep)
        (log OptimizerStep
          ((log Backward ((log (NllLoss RedMean) s2)\<lparr>grads := g\<rparr>))
             \<lparr>params := p, opt_state := st\<rparr>))"
    using assms(1,3)
    by (auto simp: f Let_def split: sum.splits if_splits prod.splits)
  then show ?thesis
    by (auto simp: s2 log_def batch_protocol_def)
qed

text \<open>
  C4. With the dry-run flag and a positive log interval, a training pass starts at most
  as many batches as the log interval (in fact at most one), and it ends exactly as a
  control run without the flag that is cut off after the same number of batches: same
  outcome, same parameters, same optimizer state, same history.
\<close>

theorem dry_run_partial_progress:
  assumes "dry_run a"
    and "0 < log_interval a"
  shows "int (count_list (new_events s (final (train T a L e s))) ZeroGrad) \<le> log_interval a \<and>
     train T a L e s =
       train_first (count_list (new_events s (final (train T a L e s))) ZeroGrad)
         T (a\<lparr>dry_run := False\<rparr>) L e s"
proof -
  let ?a = "a\<lparr>dry_run := False\<rparr>"
  let ?c = "count_list (new_events s (final (train T a L e s))) ZeroGrad"
  obtain bs s1 r0 where
    s1: "s1 = s\<lparr>rng := r0, training := True, trace := trace s @ [ModelTrain]\<rparr>" and
    tr: "train T a L e s = train_loop T a L e 0 bs s1" and
    tf: "train_first ?c T ?a L e s = train_loop T ?a L e 0 (take ?c bs) s1"
    using train_unfold [of T L s a e ?c ?a] by blast
  have t1: "training s1" by (simp add: s1)
  obtain es where
    es: "trace (final (train_loop T a L e 0 bs s1)) = trace s1 @ es" and
    c: "count_list es ZeroGrad = min 1 (length bs)"
    using dry_run_count [OF t1 assms(1), of T L e bs] by blast
  have "new_events s (final (train T a L e s)) = ModelTrain # es"
    unfolding tr using es by (simp add: s1 new_events_def)
  then have cnt: "?c = min 1 (length bs)" using c by simp
  then have "take ?c bs = take 1 bs" by (cases bs) simp_all
  then have "train T a L e s = train_first ?c T ?a L e s"
    unfolding tf unfolding tr by (simp add: dry_run_first_batch [OF assms(1)])
  moreover have "int ?c \<le> log_interval a" using cnt assms(2) by simp
  ultimately show ?thesis by blast
qed


theorem dry_run_partial_progress_witness:
  "int (count_list (new_events toy_world
          (final (train toy (toy_args\<lparr>dry_run := True\<rparr>) (toy_loader 2) 1 toy_world))) ZeroGrad) \<le> 1 \<and>
   train toy (toy_args\<lparr>dry_run := True\<rparr>) (toy_loader 2) 1 toy_world =
     train_first 1 toy toy_args (toy_loader 2) 1 toy_world"
proof -
  have d: "dry_run (toy_args\<lparr>dry_run := True\<rparr>)" by simp
  have k: "0 < log_interval (toy_args\<lparr>dry_run := True\<rparr>)" by (simp add: toy_args_def)
  have c: "count_list (new_events toy_world
          (final (train toy (toy_args\<lparr>dry_run := True\<rparr>) (toy_loader 2) 1 toy_world))) ZeroGrad = 1"
    by (simp add: train_def toy_loader_def toy_world_def toy_data_def toy_def toy_args_def
        loader_iter_def loader_len_def log_def forward_def dropout_def Let_def nll_loss_def
        nll_sample_def new_events_def)
  have a: "(toy_args\<lparr>dry_run := True\<rparr>)\<lparr>dry_run := False\<rparr> = toy_args"
    by (simp add: toy_args_def)
  show ?thesis
    using dry_run_partial_progress [OF d k, of toy_world toy "toy_loader 2" 1]
    unfolding c a by (simp add: toy_args_def)
qed

text \<open>
  C5 at a training set of three samples loaded in batches of two, with a report on every
  batch: the second report is printed when all three samples have been processed, two of
  them before the batch it reports on, and it gives 1 as the number of samples processed
  (\<open>batch_idx * len(data)\<close> with a last batch of one sample).
\<close>

theorem train_report_partial_batch:
  "printed (new_events toy_world (final (train toy toy_args (toy_loader 2) 1 toy_world))) =
     [TrainReport 1 0 3 0 (1 / 2), TrainReport 1 1 3 50 0] \<and>
   map length (fst (loader_iter toy (toy_loader 2) toy_world)) = [2, 1]"
  by (simp add: train_def toy_loader_def toy_world_def toy_data_def toy_def toy_args_def
      loader_iter_def loader_len_def log_def forward_def dropout_def Let_def nll_loss_def
      nll_sample_def new_events_def)

subsection \<open>Training loop: refinement of the batch protocol\<close>

lemma forward_cong:
  assumes "params s' = params s" "training s' = training s" "rng s' = rng s"
  shows "fst (forward T s' x) = fst (forward T s x)"
    and "rng (snd (forward T s' x)) = rng (snd (forward T s x))"
  using assms by (simp_all add: forward_def Let_def log_def split: prod.splits)


lemma protocol_step_sel [simp]:
  "training (protocol_step T s b) = training s"
  "grad_enabled (protocol_step T s b) = grad_enabled s"
  "opt_lr (protocol_step T s b) = opt_lr s"
  "trace (protocol_step T s b) = trace s"
  "files (protocol_step T s b) = files s"
  by (simp_all add: protocol_step_def Let_def split: prod.splits)


text \<open>
  One batch of the training loop: either it raises inside the batch, before the update,
  with parameters and optimizer state as they were, or it has made the protocol step and
  goes on as the report and the dry-run flag say.
\<close>

lemma train_loop_Cons:
  assumes tr: "training s"
  shows "(\<exists>j<5. \<exists>s'. \<not> returned (train_loop T a L e i (b # bs) s) \<and>
            final (train_loop T a L e i (b # bs) s) = s' \<and>
            params s' = params s \<and> opt_state s' = opt_state s \<and> opt_lr s' = opt_lr s \<and>
            trace s' = trace s @ take j (batch_events (grad_enabled s))) \<or>
         (grad_enabled s \<and>
          (\<exists>rep. train_loop T a L e i (b # bs) s =
             (if log_interval a = 0
              then Raise ZeroDivisionError ((protocol_step T s b)\<lparr>trace := trace s @ batch_protocol\<rparr>)
              else if i mod log_interval a = 0
              then (if dry_run a
                    then Return () ((protocol_step T s b)
                           \<lparr>trace := trace s @ batch_protocol @ [Print rep]\<rparr>)
                    else train_loop T a L e (i + 1) bs ((protocol_step T s b)
                           \<lparr>trace := trace s @ batch_protocol @ [Print rep]\<rparr>))
              else train_loop T a L e (i + 1) bs
                     ((protocol_step T s b)\<lparr>trace := trace s @ batch_protocol\<rparr>))))"
proof -
  let ?s1 = "log ZeroGrad (s\<lparr>grads := zero T (grads s)\<rparr>)"
  obtain out s2 where f: "forward T ?s1 (map fst b) = (out, s2)"
    by (cases "forward T ?s1 (map fst b)")
  obtain r where s2: "s2 = ?s1\<lparr>rng := r,
      trace := trace ?s1 @ [Forward (training ?s1) (grad_enabled ?s1)]\<rparr>"
    using forward_state [of T ?s1 "map fst b"] f by auto
  have s2x: "s2 = s\<lparr>grads := zero T (grads s), rng := r,
      trace := trace s @ [ZeroGrad, Forward True (grad_enabled s)]\<rparr>"
    using tr by (simp add: s2 log_def)
  have r: "r = rng (snd (forward T s (map fst b)))"
  proof -
    have "rng (snd (forward T ?s1 (map fst b))) = rng (snd (forward T s (map fst b)))"
      by (rule forward_cong) simp_all
    then show ?thesis using f by (simp add: s2x)
  qed
  let ?s3 = "log (NllLoss RedMean) s2"
  show ?thesis
  proof (cases "nll_loss T out (map snd b) RedMean")
    case (Inl err)
    then have out: "train_loop T a L e i (b # bs) s = Raise err ?s3"
      by (simp add: f Let_def)
    have "trace ?s3 = trace s @ take 3 (batch_events (grad_enabled s))"
      by (simp add: s2x batch_events_def)
    moreover have "params ?s3 = params s" "opt_state ?s3 = opt_state s" "opt_lr ?s3 = opt_lr s"
      by (simp_all add: s2x)
    moreover have "(3::nat) < 5" by simp
    ultimately show ?thesis unfolding out by (metis final.simps(2) returned.simps(2))
  next
    case (Inr loss)
    show ?thesis
    proof (cases "grad_enabled s")
      case False
      then have out: "train_loop T a L e i (b # bs) s = Raise RuntimeError (log Backward ?s3)"
        using Inr by (simp add: f Let_def s2)
      have "trace (log Backward ?s3) = trace s @ take 4 (batch_events (grad_enabled s))"
        by (simp add: s2x batch_events_def)
      moreover have "params (log Backward ?s3) = params s"
        "opt_state (log Backward ?s3) = opt_state s" "opt_lr (log Backward ?s3) = opt_lr s"
        by (simp_all add: s2x)
      moreover have "(4::nat) < 5" by simp
      ultimately show ?thesis unfolding out by (metis final.simps(2) returned.simps(2))
    next
      case True
      let ?g = "autograd T (params ?s1) (rng ?s1) b (grads ?s3)"
      let ?s4 = "log Backward (?s3\<lparr>grads := ?g\<rparr>)"
      obtain p st where ad: "adadelta T (opt_lr ?s4) (params ?s4) (grads ?s4) (opt_state ?s4) = (p, st)"
        by (cases "adadelta T (opt_lr ?s4) (params ?s4) (grads ?s4) (opt_state ?s4)")
      let ?s5 = "log OptimizerStep (?s4\<lparr>params := p, opt_state := st\<rparr>)"
      have g: "?g = autograd T (params s) (rng s) b (zero T (grads s))"
        by (simp add: s2x)
      have ad': "adadelta T (opt_lr s) (params s)
          (autograd T (params s) (rng s) b (zero T (grads s))) (opt_state s) = (p, st)"
        using ad by (simp add: s2x)
      have ps: "protocol_step T s b =
          s\<lparr>params := p,
            grads := autograd T (params s) (rng s) b (zero T (grads s)),
            opt_state := st, rng := r\<rparr>"
        by (simp add: protocol_step_def Let_def ad' r)
      have s5: "?s5 = (protocol_step T s b)\<lparr>trace := trace s @ batch_protocol\<rparr>"
        unfolding ps using True by (simp add: s2x log_def batch_protocol_def)
      let ?rep = "TrainReport e (i * int (length (map fst b))) (int (length (dataset L)))
                    (float_round T (float_round T (100 * real_of_int i) / real (loader_len L)))
                    loss"
      have s6: "log (Print ?rep) ((protocol_step T s b)\<lparr>trace := trace s @ batch_protocol\<rparr>) =
          (protocol_step T s b)\<lparr>trace := trace s @ batch_protocol @ [Print ?rep]\<rparr>"
        by (simp add: log_def)
      have "train_loop T a L e i (b # bs) s =
          (if log_interval a = 0 then Raise ZeroDivisionError ?s5
           else if i mod log_interval a = 0
           then (if dry_run a then Return () (log (Print ?rep) ?s5)
                 else train_loop T a L e (i + 1) bs (log (Print ?rep) ?s5))
           else train_loop T a L e (i + 1) bs ?s5)"
        using Inr True ad by (simp add: f Let_def s2)
      then have "train_loop T a L e i (b # bs) s =
             (if log_interval a = 0
              then Raise ZeroDivisionError ((protocol_step T s b)\<lparr>trace := trace s @ batch_protocol\<rparr>)
              else if i mod log_interval a = 0
              then (if dry_run a
                    then Return () ((protocol_step T s b)
                           \<lparr>trace := trace s @ batch_protocol @ [Print ?rep]\<rparr>)
                    else train_loop T a L e (i + 1) bs ((protocol_step T s b)
                           \<lparr>trace := trace s @ batch_protocol @ [Print ?rep]\<rparr>))
              else train_loop T a L e (i + 1) bs
                     ((protocol_step T s b)\<lparr>trace := trace s @ batch_protocol\<rparr>))"
        unfolding s5 s6 .
      then show ?thesis using True by blast
    qed
  qed
qed



lemma numbers_trace [simp]: "numbers (s\<lparr>trace := t\<rparr>) = numbers s"
  by (simp add: numbers_def)


lemma train_eq:
  "train T a L e s =
     train_loop T a L e 0 (batches_of T L (rng s))
       ((train_entry T L s)\<lparr>trace := trace s @ [ModelTrain]\<rparr>)"
proof -
  have "(log ModelTrain (s\<lparr>training := True\<rparr>))\<lparr>rng := iter_rng T L (rng s)\<rparr> =
      (train_entry T L s)\<lparr>trace := trace s @ [ModelTrain]\<rparr>"
    by (simp add: train_entry_def log_def)
  then show ?thesis by (simp add: train_def Let_def loader_iter_eq)
qed


lemma batches_of_nonempty:
  assumes "permutes T" "dataset L \<noteq> []"
  shows "batches_of T L r \<noteq> []"
proof
  assume e: "batches_of T L r = []"
  have "mset (concat (batches_of T L r)) = mset (dataset L)"
    using assms(1) by (simp add: batches_of_def concat_chunks permutes_def)
  then have "mset (dataset L) = {#}" unfolding e by simp
  then have "dataset L = []" by simp
  then show False using assms(2) by simp
qed


lemma count_zero_grad_interrupted:
  "count_list (take j (batch_events g)) ZeroGrad = (if j = 0 then 0 else 1)"
  by (simp add: batch_events_def take_Cons' count_list_0_iff) 



text \<open>
  C9. A dry run over a loader that has a batch, when it returns, has processed exactly
  the first batch: after the switch to training mode it made the calls of one batch and
  printed one report, whatever the log interval. It applied exactly one optimizer
  update: the gradients it ends with are the gradient of the first batch accumulated
  into cleared buffers, and the parameters and optimizer state it ends with are what one
  Adadelta update computes from the parameters and optimizer state it started with and
  these gradients.
\<close>

theorem dry_run_one_batch:
  assumes "dry_run a"
    and "permutes T"
    and "dataset L \<noteq> []"
    and "train T a L e s = Return u s'"
  shows "\<exists>b rest rep.
     batches_of T L (rng s) = b # rest \<and>
     new_events s s' = ModelTrain # batch_protocol @ [Print rep] \<and>
     updates s s' = 1 \<and>
     grads s' = autograd T (params s) (iter_rng T L (rng s)) b (zero T (grads s)) \<and>
     (params s', opt_state s') = adadelta T (opt_lr s) (params s) (grads s') (opt_state s) \<and>
     opt_lr s' = opt_lr s"
proof -
  let ?s1 = "(train_entry T L s)\<lparr>trace := trace s @ [ModelTrain]\<rparr>"
  obtain b rest where bs: "batches_of T L (rng s) = b # rest"
    using batches_of_nonempty [OF assms(2,3), of "rng s"] by (cases "batches_of T L (rng s)") auto
  let ?R = "train_loop T a L e 0 (b # rest) ?s1"
  have R: "?R = Return u s'" using assms(4) by (simp add: train_eq bs)
  have t1: "training ?s1" by (simp add: train_entry_def)
  have "returned ?R" using R by simp
  with train_loop_Cons [OF t1, of T a L e 0 b rest]
  obtain rep where
    out: "?R = (if log_interval a = 0
              then Raise ZeroDivisionError ((protocol_step T ?s1 b)\<lparr>trace := trace ?s1 @ batch_protocol\<rparr>)
              else if 0 mod log_interval a = 0
              then (if dry_run a
                    then Return () ((protocol_step T ?s1 b)
                           \<lparr>trace := trace ?s1 @ batch_protocol @ [Print rep]\<rparr>)
                    else train_loop T a L e (0 + 1) rest ((protocol_step T ?s1 b)
                           \<lparr>trace := trace ?s1 @ batch_protocol @ [Print rep]\<rparr>))
              else train_loop T a L e (0 + 1) rest
                     ((protocol_step T ?s1 b)\<lparr>trace := trace ?s1 @ batch_protocol\<rparr>))"
    by blast
  have "log_interval a \<noteq> 0"
  proof
    assume "log_interval a = 0"
    then have "\<not> returned ?R" by (subst out) simp
    then show False using R by simp
  qed
  then have "?R = Return () ((protocol_step T ?s1 b)
      \<lparr>trace := trace ?s1 @ batch_protocol @ [Print rep]\<rparr>)"
    using assms(1) by (subst out) simp
  then have s': "s' = (protocol_step T ?s1 b)\<lparr>trace := trace ?s1 @ batch_protocol @ [Print rep]\<rparr>"
    using R by simp
  let ?g = "autograd T (params s) (iter_rng T L (rng s)) b (zero T (grads s))"
  obtain p st where ad: "adadelta T (opt_lr s) (params s) ?g (opt_state s) = (p, st)"
    by (cases "adadelta T (opt_lr s) (params s) ?g (opt_state s)")
  have g: "grads s' = ?g" and pp: "params s' = p" and oo: "opt_state s' = st"
    and ll: "opt_lr s' = opt_lr s"
    unfolding s' using ad by (simp_all add: protocol_step_def Let_def train_entry_def)
  have ne: "new_events s s' = ModelTrain # batch_protocol @ [Print rep]"
    unfolding s' by (simp add: new_events_def train_entry_def)
  have up: "updates s s' = 1"
    unfolding updates_def ne by (simp add: batch_protocol_def)
  show ?thesis using bs ne up g pp oo ll ad by auto
qed

theorem dry_run_one_batch_witness:
  "new_events toy_world (final (train toy (toy_args\<lparr>dry_run := True, log_interval := 7\<rparr>)
       (toy_loader 2) 1 toy_world)) =
     [ModelTrain, ZeroGrad, Forward True True, NllLoss RedMean, Backward, OptimizerStep,
      Print (TrainReport 1 0 3 0 (1 / 2))] \<and>
   numbers (final (train toy (toy_args\<lparr>dry_run := True, log_interval := 7\<rparr>)
       (toy_loader 2) 1 toy_world)) = (- 1, 2, 4, 1, 6)"
proof -
  let ?a = "toy_args\<lparr>dry_run := True, log_interval := 7\<rparr>"
  have d: "dry_run ?a" by simp
  have perm: "permutes toy" by (simp add: permutes_def toy_def)
  have ne: "dataset (toy_loader 2) \<noteq> []" by (simp add: toy_loader_def toy_data_def)
  obtain s' where r: "train toy ?a (toy_loader 2) 1 toy_world = Return () s'"
    and p: "printed (new_events toy_world s') = [TrainReport 1 0 3 0 (1 / 2)]"
    and rg: "rng s' = 6"
    by (simp add: train_def toy_loader_def toy_world_def toy_data_def toy_def toy_args_def
        loader_iter_def loader_len_def log_def forward_def dropout_def Let_def nll_loss_def
        nll_sample_def new_events_def)
  have bs: "batches_of toy (toy_loader 2) (rng toy_world) = [[(0, 0), (2, 1)], [(2, 0)]]"
    by (simp add: batches_of_def toy_loader_def toy_data_def)
  from dry_run_one_batch [OF d perm ne r] obtain b rest rep where
    b: "batches_of toy (toy_loader 2) (rng toy_world) = b # rest" and
    e: "new_events toy_world s' = ModelTrain # batch_protocol @ [Print rep]" and
    g: "grads s' = autograd toy (params toy_world) (iter_rng toy (toy_loader 2) (rng toy_world))
          b (zero toy (grads toy_world))" and
    u: "(params s', opt_state s') =
          adadelta toy (opt_lr toy_world) (params toy_world) (grads s') (opt_state toy_world)" and
    l: "opt_lr s' = opt_lr toy_world"
    by blast
  have b': "b = [(0, 0), (2, 1)]" using b bs by simp
  have "printed (new_events toy_world s') = [rep]"
    unfolding e by (simp add: batch_protocol_def)
  then have rep: "rep = TrainReport 1 0 3 0 (1 / 2)" using p by simp
  have g': "grads s' = 2" using g by (simp add: b' toy_def toy_world_def)
  have "params s' = - 1 \<and> opt_state s' = 4"
    using u unfolding g' by (simp add: toy_def toy_world_def)
  then have "numbers s' = (- 1, 2, 4, 1, 6)"
    using g' l rg by (simp add: numbers_def toy_world_def)
  then show ?thesis using e rep by (simp add: r batch_protocol_def)
qed

subsection \<open>Epoch orchestration\<close>

lemma remdups_block:
  assumes "xs \<noteq> []" "list_all (\<lambda>x. f x = a) xs" "ys = [] \<or> f (hd ys) \<noteq> a"
  shows "remdups_adj (map f (xs @ ys)) = a # remdups_adj (map f ys)"
  using assms
proof (induction xs)
  case Nil
  then show ?case by simp
next
  case (Cons x xs)
  show ?case
  proof (cases xs)
    case Nil
    then show ?thesis using Cons.prems by (cases ys) auto
  next
    case (Cons x' xs')
    then have "remdups_adj (map f (xs @ ys)) = a # remdups_adj (map f ys)"
      using Cons.IH Cons.prems by simp
    then show ?thesis using Cons.prems Cons by auto
  qed
qed

lemma hd_of_phases:
  assumes "remdups_adj (map f ys) = concat (replicate k [a, b, c])" "a \<noteq> c"
  shows "ys = [] \<or> f (hd ys) \<noteq> c"
proof (cases ys)
  case Nil
  then show ?thesis by simp
next
  case (Cons y ys')
  then have "hd (remdups_adj (map f ys)) = f y" by simp
  then have fy: "hd (concat (replicate k [a, b, c])) = f y" by (simp only: assms(1))
  have "k \<noteq> 0" using assms(1) Cons by (cases k) auto
  then have "hd (concat (replicate k [a, b, c])) = a" by (cases k) auto
  then have "f y = a" using fy by simp
  then show ?thesis using assms(2) Cons by simp
qed

lemma advance_state:
  "\<exists>l. snd (advance sc s) = s\<lparr>opt_lr := l, trace := trace s @ [SchedulerStep]\<rparr> \<and>
       (interval sc = 1 \<longrightarrow> l = opt_lr s * decay sc) \<and>
       interval (fst (advance sc s)) = interval sc \<and> decay (fst (advance sc s)) = decay sc"
proof -
  have c: "interval (fst (advance sc s)) = interval sc" "decay (fst (advance sc s)) = decay sc"
    by (simp_all add: advance_def)
  show ?thesis
  proof (cases "interval sc dvd step_index sc")
    case True
    then have "snd (advance sc s) =
        s\<lparr>opt_lr := opt_lr s * decay sc, trace := trace s @ [SchedulerStep]\<rparr>"
      by (simp add: advance_def log_def)
    then show ?thesis using c by blast
  next
    case False
    then have "snd (advance sc s) = s\<lparr>opt_lr := opt_lr s, trace := trace s @ [SchedulerStep]\<rparr>"
      by (simp add: advance_def log_def)
    moreover have "interval sc \<noteq> 1" using False by auto
    ultimately show ?thesis using c by blast
  qed
qed

lemma not_saving:
  "list_all (\<lambda>ev. phase_of ev = Training) es \<Longrightarrow> list_all (\<lambda>ev. phase_of ev \<noteq> Saving) es"
  "list_all (\<lambda>ev. phase_of ev = Testing) es \<Longrightarrow> list_all (\<lambda>ev. phase_of ev \<noteq> Saving) es"
  by (auto simp: list_all_iff)

lemma epoch_loop_shape:
  "\<exists>p g st l r m es.
     final (epoch_loop T a trL teL eps sc s) =
       s\<lparr>params := p, grads := g, opt_state := st, opt_lr := l, rng := r, training := m,
         trace := trace s @ es\<rparr> \<and>
     list_all (\<lambda>ev. phase_of ev \<noteq> Saving) es \<and>
     (returned (epoch_loop T a trL teL eps sc s) \<longrightarrow>
        remdups_adj (map phase_of es) =
          concat (replicate (length eps) [Training, Testing, Scheduling]) \<and>
        (interval sc = 1 \<longrightarrow> l = opt_lr s * decay sc ^ length eps) \<and>
        m = (if eps = [] then training s else False))"
proof (induction eps arbitrary: sc s)
  case Nil
  have "final (epoch_loop T a trL teL [] sc s) =
      s\<lparr>params := params s, grads := grads s, opt_state := opt_state s, opt_lr := opt_lr s,
        rng := rng s, training := training s, trace := trace s @ []\<rparr>" by simp
  moreover have "list_all (\<lambda>ev. phase_of ev \<noteq> Saving) []" by simp
  moreover have "remdups_adj (map phase_of []) =
      concat (replicate (length ([] :: int list)) [Training, Testing, Scheduling])" by simp
  moreover have "opt_lr s = opt_lr s * decay sc ^ length ([] :: int list)" by simp
  ultimately show ?case by fastforce
next
  case (Cons e eps)
  obtain p1 g1 st1 r1 es1 where
    fin1: "final (train T a trL e s) =
       s\<lparr>params := p1, grads := g1, opt_state := st1, rng := r1, training := True,
         trace := trace s @ ModelTrain # es1\<rparr>" and
    ph1: "list_all (\<lambda>ev. phase_of ev = Training) es1"
    using train_shape [of T a trL e s] by blast
  let ?E1 = "ModelTrain # es1"
  have ph1': "list_all (\<lambda>ev. phase_of ev = Training) ?E1" using ph1 by simp
  show ?case
  proof (cases "train T a trL e s")
    case (Raise err s1)
    then have out: "epoch_loop T a trL teL (e # eps) sc s = Raise err s1" by simp
    have "final (epoch_loop T a trL teL (e # eps) sc s) =
        s\<lparr>params := p1, grads := g1, opt_state := st1, opt_lr := opt_lr s, rng := r1,
          training := True, trace := trace s @ ?E1\<rparr>"
      unfolding out using fin1 Raise by simp
    moreover have "\<not> returned (epoch_loop T a trL teL (e # eps) sc s)" unfolding out by simp
    ultimately show ?thesis using not_saving(1) [OF ph1'] by blast
  next
    case (Return u s1)
    then have s1: "s1 = s\<lparr>params := p1, grads := g1, opt_state := st1, rng := r1,
        training := True, trace := trace s @ ?E1\<rparr>"
      using fin1 by simp
    obtain r2 es2 where
      fin2: "final (test T teL s1) = s1\<lparr>rng := r2, training := False, trace := trace s1 @ es2\<rparr>" and
      ne2: "es2 \<noteq> []" and
      ph2: "list_all (\<lambda>ev. phase_of ev = Testing) es2"
      using test_phase [of T teL s1] by blast
    show ?thesis
    proof (cases "test T teL s1")
      case (Raise err s2)
      then have out: "epoch_loop T a trL teL (e # eps) sc s = Raise err s2"
        using Return by simp
      have "final (epoch_loop T a trL teL (e # eps) sc s) =
          s\<lparr>params := p1, grads := g1, opt_state := st1, opt_lr := opt_lr s, rng := r2,
            training := False, trace := trace s @ (?E1 @ es2)\<rparr>"
        unfolding out using fin2 Raise by (simp add: s1)
      moreover have "\<not> returned (epoch_loop T a trL teL (e # eps) sc s)" unfolding out by simp
      moreover have "list_all (\<lambda>ev. phase_of ev \<noteq> Saving) (?E1 @ es2)"
        using not_saving(1) [OF ph1'] not_saving(2) [OF ph2] by simp
      ultimately show ?thesis by blast
    next
      case test_ret: (Return v s2)
      then have s2: "s2 = s\<lparr>params := p1, grads := g1, opt_state := st1, rng := r2,
          training := False, trace := trace s @ (?E1 @ es2)\<rparr>"
        using fin2 by (simp add: s1)
      obtain sc1 s3 where adv: "advance sc s2 = (sc1, s3)" by (cases "advance sc s2")
      obtain l3 where
        s3': "s3 = s2\<lparr>opt_lr := l3, trace := trace s2 @ [SchedulerStep]\<rparr>" and
        l3: "interval sc = 1 \<longrightarrow> l3 = opt_lr s2 * decay sc" and
        sc1: "interval sc1 = interval sc" "decay sc1 = decay sc"
        using advance_state [of sc s2] adv by auto
      have s3: "s3 = s\<lparr>params := p1, grads := g1, opt_state := st1, opt_lr := l3, rng := r2,
          training := False, trace := trace s @ (?E1 @ es2 @ [SchedulerStep])\<rparr>"
        unfolding s3' by (simp add: s2)
      have out: "epoch_loop T a trL teL (e # eps) sc s = epoch_loop T a trL teL eps sc1 s3"
        using Return test_ret adv by simp
      from Cons.IH [of sc1 s3] obtain p g st l r m es3 where
        fin: "final (epoch_loop T a trL teL eps sc1 s3) =
           s3\<lparr>params := p, grads := g, opt_state := st, opt_lr := l, rng := r, training := m,
             trace := trace s3 @ es3\<rparr>" and
        ph3: "list_all (\<lambda>ev. phase_of ev \<noteq> Saving) es3" and
        ret: "returned (epoch_loop T a trL teL eps sc1 s3) \<longrightarrow>
          remdups_adj (map phase_of es3) =
            concat (replicate (length eps) [Training, Testing, Scheduling]) \<and>
          (interval sc1 = 1 \<longrightarrow> l = opt_lr s3 * decay sc1 ^ length eps) \<and>
          m = (if eps = [] then training s3 else False)"
        by blast
      let ?es = "?E1 @ es2 @ [SchedulerStep] @ es3"
      have "final (epoch_loop T a trL teL (e # eps) sc s) =
          s\<lparr>params := p, grads := g, opt_state := st, opt_lr := l, rng := r, training := m,
            trace := trace s @ ?es\<rparr>"
        unfolding out fin by (simp add: s3)
      moreover have "list_all (\<lambda>ev. phase_of ev \<noteq> Saving) ?es"
        using not_saving(1) [OF ph1'] not_saving(2) [OF ph2] ph3 by simp
      moreover have "returned (epoch_loop T a trL teL (e # eps) sc s) \<longrightarrow>
          remdups_adj (map phase_of ?es) =
            concat (replicate (length (e # eps)) [Training, Testing, Scheduling]) \<and>
          (interval sc = 1 \<longrightarrow> l = opt_lr s * decay sc ^ length (e # eps)) \<and>
          m = (if e # eps = [] then training s else False)"
      proof
        assume "returned (epoch_loop T a trL teL (e # eps) sc s)"
        then have r3: "remdups_adj (map phase_of es3) =
            concat (replicate (length eps) [Training, Testing, Scheduling])"
          and lr: "interval sc1 = 1 \<longrightarrow> l = opt_lr s3 * decay sc1 ^ length eps"
          and m: "m = (if eps = [] then training s3 else False)"
          using ret unfolding out by simp_all
        have h3: "es3 = [] \<or> phase_of (hd es3) \<noteq> Scheduling"
          by (rule hd_of_phases [OF r3]) simp
        have b3: "remdups_adj (map phase_of ([SchedulerStep] @ es3)) =
            Scheduling # remdups_adj (map phase_of es3)"
          by (rule remdups_block) (use h3 in simp_all)
        have h2: "[SchedulerStep] @ es3 = [] \<or> phase_of (hd ([SchedulerStep] @ es3)) \<noteq> Testing"
          by simp
        have b2: "remdups_adj (map phase_of (es2 @ [SchedulerStep] @ es3)) =
            Testing # remdups_adj (map phase_of ([SchedulerStep] @ es3))"
          by (rule remdups_block [OF ne2 ph2 h2])
        have "phase_of (hd es2) = Testing" using ne2 ph2 by (cases es2) simp_all
        then have h1: "es2 @ [SchedulerStep] @ es3 = [] \<or>
            phase_of (hd (es2 @ [SchedulerStep] @ es3)) \<noteq> Training"
          using ne2 by simp
        have b1: "remdups_adj (map phase_of (?E1 @ es2 @ [SchedulerStep] @ es3)) =
            Training # remdups_adj (map phase_of (es2 @ [SchedulerStep] @ es3))"
          by (rule remdups_block [OF _ ph1' h1]) simp
        have "remdups_adj (map phase_of ?es) =
            concat (replicate (length (e # eps)) [Training, Testing, Scheduling])"
          unfolding b1 b2 b3 r3 by simp
        moreover have "interval sc = 1 \<longrightarrow> l = opt_lr s * decay sc ^ length (e # eps)"
          using lr l3 sc1 by (simp add: s3 s2)
        moreover have "m = (if e # eps = [] then training s else False)"
          using m by (simp add: s3)
        ultimately show "remdups_adj (map phase_of ?es) =
            concat (replicate (length (e # eps)) [Training, Testing, Scheduling]) \<and>
          (interval sc = 1 \<longrightarrow> l = opt_lr s * decay sc ^ length (e # eps)) \<and>
          m = (if e # eps = [] then training s else False)"
          by blast
      qed
      ultimately show ?thesis by blast
    qed
  qed
qed


lemma init_world_sel [simp]:
  "trace (init_world T a) = []" "files (init_world T a) = []"
  "training (init_world T a)" "opt_lr (init_world T a) = lr a"
  "grad_enabled (init_world T a)"
  by (simp_all add: init_world_def split: prod.splits)

lemma main_unfold:
  assumes "main T env a = Inr out"
  shows "\<exists>trL teL.
     out = (case epoch_loop T a trL teL [1..epochs a] (StepLR (init_world T a) 1 (gamma a))
                   (init_world T a) of
              Raise e s1 \<Rightarrow> Raise e s1
            | Return sc s1 \<Rightarrow>
                if save_model a then Return () (save ''mnist_cnn.pt'' s1) else Return () s1)"
  using assms
  by (auto simp: main_def Let_def split: sum.splits if_splits)

lemma main_shape:
  assumes "main T env a = Inr out"
  shows "\<exists>p g st l r m es.
     final out =
       (init_world T a)\<lparr>params := p, grads := g, opt_state := st, opt_lr := l, rng := r,
          training := m, trace := es @ (if returned out \<and> save_model a then [Save ''mnist_cnn.pt''] else []),
          files := (if returned out \<and> save_model a then [(''mnist_cnn.pt'', p)] else [])\<rparr> \<and>
     list_all (\<lambda>ev. phase_of ev \<noteq> Saving) es \<and>
     (returned out \<longrightarrow>
        remdups_adj (map phase_of es) =
          concat (replicate (nat (epochs a)) [Training, Testing, Scheduling]) \<and>
        l = lr a * gamma a ^ nat (epochs a) \<and>
        m = (epochs a < 1))"
proof -
  let ?s0 = "init_world T a"
  let ?sc = "StepLR ?s0 1 (gamma a)"
  obtain trL teL where
    out: "out = (case epoch_loop T a trL teL [1..epochs a] ?sc ?s0 of
              Raise e s1 \<Rightarrow> Raise e s1
            | Return sc s1 \<Rightarrow>
                if save_model a then Return () (save ''mnist_cnn.pt'' s1) else Return () s1)"
    using main_unfold [OF assms] by blast
  let ?run = "epoch_loop T a trL teL [1..epochs a] ?sc ?s0"
  obtain p g st l r m es where
    fin: "final ?run =
       ?s0\<lparr>params := p, grads := g, opt_state := st, opt_lr := l, rng := r, training := m,
         trace := trace ?s0 @ es\<rparr>" and
    ph: "list_all (\<lambda>ev. phase_of ev \<noteq> Saving) es" and
    ret: "returned ?run \<longrightarrow>
        remdups_adj (map phase_of es) =
          concat (replicate (length [1..epochs a]) [Training, Testing, Scheduling]) \<and>
        (interval ?sc = 1 \<longrightarrow> l = opt_lr ?s0 * decay ?sc ^ length [1..epochs a]) \<and>
        m = (if [1..epochs a] = [] then training ?s0 else False)"
    using epoch_loop_shape [of T a trL teL "[1..epochs a]" ?sc ?s0] by blast
  have same: "returned out = returned ?run"
    unfolding out by (cases ?run) simp_all
  have f: "final out =
       ?s0\<lparr>params := p, grads := g, opt_state := st, opt_lr := l, rng := r,
          training := m, trace := es @ (if returned out \<and> save_model a then [Save ''mnist_cnn.pt''] else []),
          files := (if returned out \<and> save_model a then [(''mnist_cnn.pt'', p)] else [])\<rparr>"
  proof (cases ?run)
    case (Return sc s1)
    then have "s1 = ?s0\<lparr>params := p, grads := g, opt_state := st, opt_lr := l, rng := r,
        training := m, trace := es\<rparr>" using fin by simp
    then show ?thesis unfolding out Return by (simp add: save_def log_def)
  next
    case (Raise e s1)
    then have "s1 = ?s0\<lparr>params := p, grads := g, opt_state := st, opt_lr := l, rng := r,
        training := m, trace := es\<rparr>" using fin by simp
    then show ?thesis unfolding out Raise by simp
  qed
  have "returned out \<longrightarrow>
        remdups_adj (map phase_of es) =
          concat (replicate (nat (epochs a)) [Training, Testing, Scheduling]) \<and>
        l = lr a * gamma a ^ nat (epochs a) \<and>
        m = (epochs a < 1)"
    using ret unfolding same by (auto simp: StepLR_def)
  then show ?thesis using f ph by blast
qed


lemma toy_main_run:
  "main toy toy_env toy_args = Inr (Return ()
       \<lparr>params = - 2, grads = 1, opt_state = 5, opt_lr = 1 / 2, rng = 8,
          training = False, grad_enabled = True,
          trace =
            [ModelTrain, ZeroGrad, Forward True True, NllLoss RedMean,
             Backward, OptimizerStep, Print (TrainReport 1 0 3 0 (1 / 2)),
             ZeroGrad, Forward True True, NllLoss RedMean, Backward,
             OptimizerStep, Print (TrainReport 1 1 3 50 0), ModelEval,
             NoGradEnter, Forward False False, NllLoss RedSum,
             Forward False False, NllLoss RedSum, NoGradExit,
             Print (TestReport 1 2 3 (200 / 3)), SchedulerStep,
             Save ''mnist_cnn.pt''],
          files = [(''mnist_cnn.pt'', - 2)]\<rparr>)"
  by (simp add: test_def train_def main_def toy_data_def toy_def toy_args_def toy_env_def
      loader_iter_def loader_len_def DataLoader_def init_world_def StepLR_def advance_def
      save_def log_def forward_def dropout_def Let_def nll_loss_def nll_sample_def
      argmax_row_def eq_sum_def)


lemma training_forward:
  "list_all (\<lambda>ev. phase_of ev = Training) es \<Longrightarrow> list_all train_mode_forward es"
proof (induction es)
  case Nil
  then show ?case by simp
next
  case (Cons ev es)
  then show ?case by (cases ev) (auto split: if_splits)
qed

text \<open>
  C10, for a run of at least one epoch. Every call of the evaluation loop, returning or
  raising, leaves the model in evaluation mode. Every call of the training loop first
  switches to training mode, so all its forward passes run in training mode whatever
  mode it was entered in. After a run of \<open>main\<close> with at least one epoch the model is in
  evaluation mode, and a forward pass made then is the pass without dropout.
\<close>

theorem eval_mode_after_run:
  assumes "main T env a = Inr (Return u s')"
    and "1 \<le> epochs a"
  shows "\<not> training (final (test T L s)) \<and>
     take 1 (new_events s (final (train T a L e s))) = [ModelTrain] \<and>
     list_all train_mode_forward (new_events s (final (train T a L e s))) \<and>
     \<not> training s' \<and>
     forward T s' xs = (map (eval_row T (params s')) xs, log (Forward False (grad_enabled s')) s')"
proof -
  obtain r es where "final (test T L s) = s\<lparr>rng := r, training := False, trace := trace s @ es\<rparr>"
    using test_phase [of T L s] by blast
  then have t: "\<not> training (final (test T L s))" by simp
  obtain p g st r es where
    fin: "final (train T a L e s) =
       s\<lparr>params := p, grads := g, opt_state := st, rng := r, training := True,
         trace := trace s @ ModelTrain # es\<rparr>" and
    ph: "list_all (\<lambda>ev. phase_of ev = Training) es"
    using train_shape [of T a L e s] by blast
  have ne: "new_events s (final (train T a L e s)) = ModelTrain # es"
    unfolding fin by (simp add: new_events_def)
  have tr: "take 1 (new_events s (final (train T a L e s))) = [ModelTrain]"
    and fw: "list_all train_mode_forward (new_events s (final (train T a L e s)))"
    unfolding ne using training_forward [OF ph] by simp_all
  obtain p g st l r m es where
    "final (Return u s') =
       (init_world T a)\<lparr>params := p, grads := g, opt_state := st, opt_lr := l, rng := r,
          training := m, trace := es @ (if returned (Return u s') \<and> save_model a then [Save ''mnist_cnn.pt''] else []),
          files := (if returned (Return u s') \<and> save_model a then [(''mnist_cnn.pt'', p)] else [])\<rparr>" and
    "returned (Return u s') \<longrightarrow>
        remdups_adj (map phase_of es) =
          concat (replicate (nat (epochs a)) [Training, Testing, Scheduling]) \<and>
        l = lr a * gamma a ^ nat (epochs a) \<and>
        m = (epochs a < 1)"
    using main_shape [OF assms(1)] by blast
  then have ev: "\<not> training s'" using assms(2) by simp
  show ?thesis using t tr fw ev forward_eval [OF ev] by simp
qed

theorem eval_mode_after_run_witness:
  "\<exists>s'. main toy toy_env toy_args = Inr (Return () s') \<and> \<not> training s' \<and>
     fst (forward toy s' [0, 2]) = [[0, - 3], [4, - 7]] \<and>
     \<not> training (final (test toy toy_bad_loader toy_world))"
proof -
  obtain s' where m: "main toy toy_env toy_args = Inr (Return () s')" and p: "params s' = - 2"
    using toy_main_run by simp
  have e: "1 \<le> epochs toy_args" by (simp add: toy_args_def)
  from eval_mode_after_run [OF m e, where L = toy_bad_loader and s = toy_world and xs = "[0, 2]"]
  have "\<not> training s' \<and> fst (forward toy s' [0, 2]) = [[0, - 3], [4, - 7]] \<and>
     \<not> training (final (test toy toy_bad_loader toy_world))"
    by (simp add: p eval_row_def toy_def)
  then show ?thesis using m by blast
qed

text \<open>
  C10 as stated fails for a run without epochs: with \<open>--epochs 0\<close> the loop body never
  runs, \<open>main\<close> returns, and the model is still in the training mode it was built in.
\<close>

theorem eval_mode_after_run_counterexample:
  "main toy toy_env (toy_args\<lparr>epochs := 0, save_model := False\<rparr>) = Inr (Return () toy_world) \<and>
   training toy_world \<and>
   fst (forward toy toy_world [2, 2]) = [[0, - 3], [- 2, - 1]]"
  by (simp add: main_def toy_data_def toy_def toy_args_def toy_env_def toy_world_def
      DataLoader_def init_world_def StepLR_def Let_def forward_def dropout_def log_def)

end
